theory Spec2Isabelle
  imports Complex_Main "HOL-Library.Char_ord" "HOL-Library.List_Lexorder" "HOL-Library.Multiset"
    "HOL-Library.Sublist"
begin

section \<open>Python text\<close>

text \<open>
  A Python \<open>str\<close> is modelled as a \<open>string\<close> whose characters are read as
  the code points U+0000 to U+00FF. \<open>py_isspace\<close> is \<open>str.isspace\<close> (and the
  regular expression class \<open>\s\<close>), \<open>py_isword\<close> is the class \<open>\w\<close>, and
  \<open>py_lower\<close> is \<open>str.lower\<close>, each on that range.
\<close>

definition py_isspace :: "char \<Rightarrow> bool" where
  "py_isspace c =
     (let n = (of_char c :: nat)
      in (9 \<le> n \<and> n \<le> 13) \<or> (28 \<le> n \<and> n \<le> 32) \<or> n = 133 \<or> n = 160)"

definition py_isword :: "char \<Rightarrow> bool" where
  "py_isword c =
     (let n = (of_char c :: nat)
      in (48 \<le> n \<and> n \<le> 57) \<or> (65 \<le> n \<and> n \<le> 90) \<or> n = 95 \<or> (97 \<le> n \<and> n \<le> 122)
         \<or> n = 170 \<or> n = 178 \<or> n = 179 \<or> n = 181 \<or> n = 185 \<or> n = 186
         \<or> (188 \<le> n \<and> n \<le> 190) \<or> (192 \<le> n \<and> n \<le> 214)
         \<or> (216 \<le> n \<and> n \<le> 246) \<or> (248 \<le> n \<and> n \<le> 255))"

definition py_lower_char :: "char \<Rightarrow> char" where
  "py_lower_char c =
     (let n = (of_char c :: nat)
      in if (65 \<le> n \<and> n \<le> 90) \<or> (192 \<le> n \<and> n \<le> 214) \<or> (216 \<le> n \<and> n \<le> 222)
         then char_of (n + 32) else c)"

definition py_lower :: "string \<Rightarrow> string" where
  "py_lower s = map py_lower_char s"

text \<open>\<open>s.strip()\<close> and \<open>s.strip(';')\<close>: \<open>strip_p P\<close> removes the characters
  satisfying \<open>P\<close> from both ends.\<close>

definition lstrip_p :: "(char \<Rightarrow> bool) \<Rightarrow> string \<Rightarrow> string" where
  "lstrip_p P s = dropWhile P s"

definition rstrip_p :: "(char \<Rightarrow> bool) \<Rightarrow> string \<Rightarrow> string" where
  "rstrip_p P s = rev (dropWhile P (rev s))"

definition strip_p :: "(char \<Rightarrow> bool) \<Rightarrow> string \<Rightarrow> string" where
  "strip_p P s = rstrip_p P (lstrip_p P s)"

definition py_strip :: "string \<Rightarrow> string" where
  "py_strip s = strip_p py_isspace s"

text \<open>\<open>needle in haystack\<close> on strings.\<close>

fun py_in :: "string \<Rightarrow> string \<Rightarrow> bool" where
  "py_in needle [] = (needle = [])"
| "py_in needle (x # xs) = (prefix needle (x # xs) \<or> py_in needle xs)"

section \<open>Regular expressions as Python's \<open>re\<close> matches them\<close>

text \<open>
  The patterns of \<open>db_tools.py\<close> are terms of \<open>rx\<close>. A position in the subject is
  the character before it (\<open>None\<close> at the start of the text) and the text that
  remains. \<open>ends r st\<close> lists the positions at which a match of \<open>r\<close> that
  starts at \<open>st\<close> can end, in the order in which the backtracking matcher tries
  them: the left alternative before the right one, one more repetition before
  stopping for the greedy star, stopping before one more repetition for the lazy
  star. The match \<open>re\<close> reports is the first of the list.
\<close>

datatype rx =
    Chr char
  | Cls "char \<Rightarrow> bool"
  | Eps
  | Cat rx rx
  | Alt rx rx
  | Star rx
  | Lazy rx
  | Bol
  | Eol
  | WordB

type_synonym pos = "char option \<times> string"

definition word_before :: "pos \<Rightarrow> bool" where
  "word_before st = (case fst st of None \<Rightarrow> False | Some c \<Rightarrow> py_isword c)"

definition word_after :: "pos \<Rightarrow> bool" where
  "word_after st = (case snd st of [] \<Rightarrow> False | c # _ \<Rightarrow> py_isword c)"

text \<open>Repetition: every round has to consume at least one character, so the
  length of the remaining text bounds the number of rounds.\<close>

fun iter_greedy :: "(pos \<Rightarrow> pos list) \<Rightarrow> nat \<Rightarrow> pos \<Rightarrow> pos list" where
  "iter_greedy f 0 st = [st]"
| "iter_greedy f (Suc n) st =
     concat (map (iter_greedy f n) (filter (\<lambda>st'. length (snd st') < length (snd st)) (f st))) @ [st]"

fun iter_lazy :: "(pos \<Rightarrow> pos list) \<Rightarrow> nat \<Rightarrow> pos \<Rightarrow> pos list" where
  "iter_lazy f 0 st = [st]"
| "iter_lazy f (Suc n) st =
     st # concat (map (iter_lazy f n) (filter (\<lambda>st'. length (snd st') < length (snd st)) (f st)))"

fun one_char :: "(char \<Rightarrow> bool) \<Rightarrow> pos \<Rightarrow> pos list" where
  "one_char P (p, []) = []"
| "one_char P (p, x # xs) = (if P x then [(Some x, xs)] else [])"

fun ends :: "rx \<Rightarrow> pos \<Rightarrow> pos list" where
  "ends (Chr c) st = one_char (\<lambda>x. x = c) st"
| "ends (Cls P) st = one_char P st"
| "ends Eps st = [st]"
| "ends (Cat a b) st = concat (map (ends b) (ends a st))"
| "ends (Alt a b) st = ends a st @ ends b st"
| "ends (Star a) st = iter_greedy (ends a) (length (snd st)) st"
| "ends (Lazy a) st = iter_lazy (ends a) (length (snd st)) st"
| "ends Bol st = (if fst st = None then [st] else [])"
| "ends Eol st = (if snd st = [] \<or> snd st = [CHR 0x0A] then [st] else [])"
| "ends WordB st = (if word_before st \<noteq> word_after st then [st] else [])"

text \<open>\<open>re.match(r, s)\<close> succeeds when \<open>r\<close> matches at the start of \<open>s\<close>;
  \<open>re.search(r, s)\<close> when it matches at some position, tried from the left.\<close>

definition re_match :: "rx \<Rightarrow> string \<Rightarrow> bool" where
  "re_match r s = (ends r (None, s) \<noteq> [])"

fun search_from :: "rx \<Rightarrow> pos \<Rightarrow> bool" where
  "search_from r (p, []) = (ends r (p, []) \<noteq> [])"
| "search_from r (p, x # xs) = (ends r (p, x # xs) \<noteq> [] \<or> search_from r (Some x, xs))"

definition re_search :: "rx \<Rightarrow> string \<Rightarrow> bool" where
  "re_search r s = search_from r (None, s)"

text \<open>
  \<open>re.sub(r, repl, s)\<close> for a replacement without group references: the
  leftmost match is replaced and the scan goes on behind it; where nothing
  matches, the character is copied. The three patterns below start with two
  literal characters or a quote and so have no empty match; for an empty match
  the replacement is emitted and the scan moves on by one character.
\<close>

function sub_from :: "rx \<Rightarrow> string \<Rightarrow> pos \<Rightarrow> string" where
  "sub_from r repl (p, s) =
     (case ends r (p, s) of
        [] \<Rightarrow> (case s of [] \<Rightarrow> [] | x # xs \<Rightarrow> x # sub_from r repl (Some x, xs))
      | e # _ \<Rightarrow>
          if length (snd e) < length s then repl @ sub_from r repl e
          else repl @ (case s of [] \<Rightarrow> [] | x # xs \<Rightarrow> x # sub_from r repl (Some x, xs)))"
  by pat_completeness auto
termination
  by (relation "measure (\<lambda>(r, repl, st). length (snd st))") auto

definition re_sub :: "rx \<Rightarrow> string \<Rightarrow> string \<Rightarrow> string" where
  "re_sub r repl s = sub_from r repl (None, s)"

text \<open>Pattern syntax: a literal word, \<open>r+\<close>, \<open>(?:r)?\<close>, \<open>r1|...|rn\<close>.\<close>

fun lit :: "string \<Rightarrow> rx" where
  "lit [] = Eps"
| "lit (c # cs) = Cat (Chr c) (lit cs)"

definition plus :: "rx \<Rightarrow> rx" where
  "plus r = Cat r (Star r)"

definition opt :: "rx \<Rightarrow> rx" where
  "opt r = Alt r Eps"

fun alts :: "rx list \<Rightarrow> rx" where
  "alts [] = Cls (\<lambda>_. False)"
| "alts [r] = r"
| "alts (r # rs) = Alt r (alts rs)"

definition space :: rx where
  "space = Cls py_isspace"

section \<open>Statement policy guard (agent/tools/db_tools.py)\<close>

text \<open>
  \<^verbatim>\<open>
  def _strip_comments_and_literals(statement):
      statement = re.sub(r"/\*.*?\*/", " ", statement, flags=re.S)
      statement = re.sub(r"--.*?(|$)", " ", statement)
      statement = re.sub(r"'([^']|'')*'", "''", statement)
      return statement
  \<close>
  With \<open>re.S\<close> the dot of the first pattern matches every character; the dot
  of the second one matches every character but the newline.
\<close>

definition block_comment_rx :: rx where
  "block_comment_rx = Cat (lit ''/*'') (Cat (Lazy (Cls (\<lambda>_. True))) (lit ''*/''))"

definition line_comment_rx :: rx where
  "line_comment_rx = Cat (lit ''--'') (Cat (Lazy (Cls (\<lambda>c. c \<noteq> CHR 0x0A))) (Alt Eps Eol))"

definition literal_rx :: rx where
  "literal_rx =
     Cat (Chr (CHR 0x27))
       (Cat (Star (Alt (Cls (\<lambda>c. c \<noteq> CHR 0x27)) (Cat (Chr (CHR 0x27)) (Chr (CHR 0x27)))))
            (Chr (CHR 0x27)))"

definition strip_comments_and_literals :: "string \<Rightarrow> string" where
  "strip_comments_and_literals statement =
     (let statement1 = re_sub block_comment_rx '' '' statement;
          statement2 = re_sub line_comment_rx '' '' statement1;
          statement3 = re_sub literal_rx [CHR 0x27, CHR 0x27] statement2
      in statement3)"

text \<open>
  \<^verbatim>\<open>
  def _is_read_only(statement):
      cleaned = _strip_comments_and_literals(statement).strip().lower().strip(';')
      if not re.match(r"^\s*(?:explain\s+(?:query\s+plan\s+)?)?(select|with)\b", cleaned):
          return False
      prohibited = (r"\b(insert|update|delete|replace|create|alter|drop|truncate|attach|detach|vacuum|"
                    r"reindex|analyze|begin|commit|rollback|savepoint|release|pragma)\b")
      return re.search(prohibited, cleaned) is None
  \<close>
\<close>

definition cleaned :: "string \<Rightarrow> string" where
  "cleaned statement =
     strip_p (\<lambda>c. c = CHR '';'') (py_lower (py_strip (strip_comments_and_literals statement)))"

definition read_prefix_rx :: rx where
  "read_prefix_rx =
     Cat Bol (Cat (Star space)
       (Cat (opt (Cat (lit ''explain'') (Cat (plus space)
                   (opt (Cat (lit ''query'') (Cat (plus space) (Cat (lit ''plan'') (plus space))))))))
            (Cat (Alt (lit ''select'') (lit ''with'')) WordB)))"

definition prohibited_terms :: "string list" where
  "prohibited_terms =
     [''insert'', ''update'', ''delete'', ''replace'', ''create'', ''alter'', ''drop'',
      ''truncate'', ''attach'', ''detach'', ''vacuum'', ''reindex'', ''analyze'', ''begin'',
      ''commit'', ''rollback'', ''savepoint'', ''release'', ''pragma'']"

definition prohibited_rx :: rx where
  "prohibited_rx = Cat WordB (Cat (alts (map lit prohibited_terms)) WordB)"

definition is_read_only :: "string \<Rightarrow> bool" where
  "is_read_only statement =
     (if \<not> re_match read_prefix_rx (cleaned statement) then False
      else \<not> re_search prohibited_rx (cleaned statement))"

section \<open>Python values and rows\<close>

text \<open>
  A result row is what \<open>sqlite3\<close> hands back (a tuple of scalars), what
  \<open>BasicAgent._normalize_results\<close> turns it into (a list), or a bare scalar.
  The scalars themselves (None, int, float, str, bytes) are kept abstract: the
  type parameter \<open>'a\<close> is the scalar, \<open>sr\<close> is Python's \<open>repr\<close> on
  scalars and \<open>e\<close> is Python's \<open>==\<close> on scalars.
\<close>

datatype 'a pyval = Scalar 'a | PyTuple "'a pyval list" | PyList "'a pyval list"

text \<open>\<open>sep.join(parts)\<close>\<close>

fun join :: "string \<Rightarrow> string list \<Rightarrow> string" where
  "join sep [] = []"
| "join sep [x] = x"
| "join sep (x # y # ys) = x @ sep @ join sep (y # ys)"

text \<open>\<open>repr\<close> of a tuple and of a list, from the \<open>repr\<close>s of the elements:
  \<open>()\<close>, \<open>(1,)\<close>, \<open>(1, 2)\<close> and \<open>[]\<close>, \<open>[1]\<close>, \<open>[1, 2]\<close>.\<close>

fun tuple_repr :: "string list \<Rightarrow> string" where
  "tuple_repr [s] = ''('' @ s @ '',)''"
| "tuple_repr ss = ''('' @ join '', '' ss @ '')''"

definition list_repr :: "string list \<Rightarrow> string" where
  "list_repr ss = ''['' @ join '', '' ss @ '']''"

fun py_repr :: "('a \<Rightarrow> string) \<Rightarrow> 'a pyval \<Rightarrow> string" where
  "py_repr sr (Scalar a) = sr a"
| "py_repr sr (PyTuple xs) = tuple_repr (map (py_repr sr) xs)"
| "py_repr sr (PyList xs) = list_repr (map (py_repr sr) xs)"

text \<open>Python's \<open>==\<close>: a list never equals a tuple, a scalar never equals a
  container, containers of one kind are equal when they have the same length and
  equal elements.\<close>

fun py_eq :: "('a \<Rightarrow> 'a \<Rightarrow> bool) \<Rightarrow> 'a pyval \<Rightarrow> 'a pyval \<Rightarrow> bool" where
  "py_eq e (Scalar a) (Scalar b) = e a b"
| "py_eq e (PyTuple xs) (PyTuple ys) = list_all2 (py_eq e) xs ys"
| "py_eq e (PyList xs) (PyList ys) = list_all2 (py_eq e) xs ys"
| "py_eq e _ _ = False"

section \<open>Result canonicalizer and comparator (evaluation/functions.py)\<close>

text \<open>
  \<^verbatim>\<open>
  def _canonicalize_rows(rows):
      canon = []
      for r in rows:
          if isinstance(r, (list, tuple)):
              canon.append(repr(tuple(r)))
          else:
              canon.append(repr((r,)))
      return sorted(canon)
  \<close>
  \<open>row_repr\<close> is the loop body; \<open>sorted\<close> on Python strings orders them
  lexicographically by code point, which is the order of \<open>char list\<close> here.
\<close>

fun row_repr :: "('a \<Rightarrow> string) \<Rightarrow> 'a pyval \<Rightarrow> string" where
  "row_repr sr (PyTuple xs) = py_repr sr (PyTuple xs)"
| "row_repr sr (PyList xs) = py_repr sr (PyTuple xs)"
| "row_repr sr (Scalar a) = py_repr sr (PyTuple [Scalar a])"

definition canonicalize_rows :: "('a \<Rightarrow> string) \<Rightarrow> 'a pyval list \<Rightarrow> string list" where
  "canonicalize_rows sr rows = sort (map (row_repr sr) rows)"

text \<open>
  \<^verbatim>\<open>
  def compare_results(pred_rows, gold_rows, order_insensitive=True):
      if order_insensitive:
          return _canonicalize_rows(pred_rows) == _canonicalize_rows(gold_rows)
      return pred_rows == gold_rows
  \<close>
\<close>

definition compare_results ::
  "('a \<Rightarrow> string) \<Rightarrow> ('a \<Rightarrow> 'a \<Rightarrow> bool) \<Rightarrow> 'a pyval list \<Rightarrow> 'a pyval list \<Rightarrow> bool \<Rightarrow> bool" where
  "compare_results sr e pred_rows gold_rows order_insensitive =
     (if order_insensitive
      then canonicalize_rows sr pred_rows = canonicalize_rows sr gold_rows
      else list_all2 (py_eq e) pred_rows gold_rows)"

section \<open>Python floats\<close>

text \<open>
  A Python \<open>float\<close> is an IEEE 754 binary64 number, and \<open>+\<close>, \<open>-\<close>, \<open>*\<close>,
  \<open>/\<close> on floats give the exact result rounded to the nearest such number, a
  tie going to the even mantissa. \<open>fl64 x\<close> is that rounding of the real
  number \<open>x\<close>: \<open>normalise\<close> scales \<open>\<bar>x\<bar>\<close> by powers of two into the range
  of the 53-bit mantissas, \<open>2 ^ 52 \<le> m < 2 ^ 53\<close>, \<open>round_even\<close> rounds \<open>m\<close> to
  an integer, and the power of two is put back. The 2200 steps of \<open>normalise\<close>
  reach every binary64 exponent. The exponent itself is not bounded here, so this
  is float arithmetic where it neither overflows to infinity nor gets to the
  subnormal numbers (clock readings in seconds, budgets in milliseconds; an
  \<open>int\<close> of \<open>2 ^ 1024\<close> or more has no float, and Python raises
  \<open>OverflowError\<close> on its division by \<open>1000.0\<close>).
\<close>

definition round_even :: "real \<Rightarrow> int" where
  "round_even x =
     (let f = \<lfloor>x\<rfloor>; r = x - of_int f in
      if r < 1 / 2 then f else if 1 / 2 < r then f + 1 else if even f then f else f + 1)"

fun normalise :: "nat \<Rightarrow> real \<Rightarrow> int \<Rightarrow> real \<times> int" where
  "normalise 0 m e = (m, e)"
| "normalise (Suc n) m e =
     (if m < 2 ^ 52 then normalise n (m * 2) (e - 1)
      else if 2 ^ 53 \<le> m then normalise n (m / 2) (e + 1)
      else (m, e))"

definition pow2 :: "int \<Rightarrow> real" where
  "pow2 e = (if 0 \<le> e then 2 ^ nat e else 1 / 2 ^ nat (- e))"

definition fl64 :: "real \<Rightarrow> real" where
  "fl64 x =
     (if x = 0 then 0
      else case normalise 2200 \<bar>x\<bar> 0 of
             (m, e) \<Rightarrow> sgn x * real_of_int (round_even m) * pow2 e)"

section \<open>Bounded execution engine (agent/tools/db_tools.py)\<close>

text \<open>
  An exception is either a \<open>sqlite3.Error\<close> (any subclass; the text is
  \<open>str(exc)\<close>) or any other exception.
\<close>

datatype pyexc = SqliteError string | OtherError string

text \<open>
  A connection: the progress handler installed on it (\<open>None\<close> when there is
  none, \<open>Some deadline\<close> for the closure \<open>_progress_handler\<close> built over that
  deadline), whether it has been closed, and the file it was opened on.
\<close>

record conn =
  handler :: "real option option"
  closed :: bool
  path :: string

text \<open>
  What SQLite does with one statement, as far as \<open>safe_query\<close> can see it:
  how many times the progress handler is invoked (once every 1000 virtual machine
  instructions) before \<open>execute\<close> and \<open>fetchall\<close> would come to their end, and
  that end: the rows, each a tuple of scalars, or an exception. A handler that
  returns non-zero makes SQLite abandon the statement with the
  \<open>sqlite3.OperationalError\<close> whose text is \<open>interrupted\<close>.
\<close>

datatype 'a db_finish = Rows "'a list list" | Fails pyexc

record 'a db_run =
  polls :: nat
  finish :: "'a db_finish"

text \<open>The dictionary that \<open>safe_query\<close> returns.\<close>

record 'a exec_dict =
  d_success :: bool
  d_status :: string
  d_elapsed_ms :: real
  d_results :: "'a pyval list"
  d_error :: "string option"

text \<open>
  \<^verbatim>\<open>
  def _progress_handler_generator(deadline):
      def _progress_handler():
          if deadline is not None and time.monotonic() >= deadline:
              return 1
          return 0
      return _progress_handler
  \<close>
  \<open>clk k\<close> is the \<open>k\<close>-th reading of \<open>time.monotonic()\<close>, in seconds (the
  real number that the float is); the second argument and result count the
  readings taken so far. The comparison of two floats is exact.
\<close>

definition progress_handler :: "(nat \<Rightarrow> real) \<Rightarrow> real option \<Rightarrow> nat \<Rightarrow> int \<times> nat" where
  "progress_handler clk deadline k =
     (case deadline of
        None \<Rightarrow> (0, k)
      | Some d \<Rightarrow> (if clk k \<ge> d then 1 else 0, Suc k))"

text \<open>SQLite evaluating a statement under the installed handler: the handler is
  invoked up to \<open>n\<close> times, and the first non-zero answer interrupts the
  evaluation. The result tells whether it was interrupted, and the readings taken.\<close>

fun evaluate :: "(nat \<Rightarrow> real) \<Rightarrow> real option \<Rightarrow> nat \<Rightarrow> nat \<Rightarrow> bool \<times> nat" where
  "evaluate clk deadline 0 k = (False, k)"
| "evaluate clk deadline (Suc n) k =
     (case progress_handler clk deadline k of
        (rc, k') \<Rightarrow> if rc \<noteq> 0 then (True, k') else evaluate clk deadline n k')"

text \<open>
  \<^verbatim>\<open>
  def safe_query(conn, sql, msx_ms):
      start = time.monotonic()
      if not _is_read_only(sql):
          elapsed = (time.monotonic() - start) * 1000.0
          return {"success": False, "status": "NoSafe", "elapsed_ms": elapsed,
                  "results": [], "error": "Query rejected by read-only policy"}
      deadline = start + (msx_ms / 1000.0) if msx_ms and msx_ms > 0 else None
      _progress_handler = _progress_handler_generator(deadline)
      conn.set_progress_handler(_progress_handler, 1000)
      try:
          cursor = conn.cursor()
          cursor.execute(sql)
          rows = cursor.fetchall()
          elapsed = (time.monotonic() - start) * 1000.0
          return {"success": True, "status": "success", "elapsed_ms": elapsed,
                  "results": rows, "error": None}
      except sqlite3.Error as exc:
          status = "TimeOut" if "interrupted" in str(exc).lower() else "ExecFailed"
          elapsed = (time.monotonic() - start) * 1000.0
          return {"success": False, "status": status, "elapsed_ms": elapsed,
                  "results": [], "error": str(exc)}
      finally:
          conn.set_progress_handler(None, 0)
  \<close>
  The state is the connection and the number of clock readings taken; the result
  is the new state and what the call returns or raises. On a closed connection
  \<open>set_progress_handler\<close> raises before the \<open>try\<close> is entered.
  \<open>deadline_at\<close> is the right-hand side of the assignment to \<open>deadline\<close>
  (\<open>msx_ms\<close> is an \<open>int\<close>, converted to a float for the division) and
  \<open>elapsed_ms_at start now\<close> is \<open>(now - start) * 1000.0\<close>, both in float
  arithmetic.
\<close>

definition deadline_at :: "real \<Rightarrow> int \<Rightarrow> real option" where
  "deadline_at start msx_ms =
     (if msx_ms > 0 then Some (fl64 (start + fl64 (fl64 (real_of_int msx_ms) / 1000))) else None)"

definition elapsed_ms_at :: "real \<Rightarrow> real \<Rightarrow> real" where
  "elapsed_ms_at start now = fl64 (fl64 (now - start) * 1000)"

definition safe_query ::
  "(nat \<Rightarrow> real) \<Rightarrow> 'a db_run \<Rightarrow> conn \<times> nat \<Rightarrow> string \<Rightarrow> int
     \<Rightarrow> (conn \<times> nat) \<times> (pyexc + 'a exec_dict)" where
  "safe_query clk ev st sql msx_ms =
     (let c = fst st; k = snd st; start = clk k in
      if \<not> is_read_only sql then
        ((c, k + 2),
         Inr \<lparr>d_success = False, d_status = ''NoSafe'',
              d_elapsed_ms = elapsed_ms_at start (clk (k + 1)), d_results = [],
              d_error = Some ''Query rejected by read-only policy''\<rparr>)
      else
        let deadline = deadline_at start msx_ms in
        if closed c then ((c, k + 1), Inl (SqliteError ''Cannot operate on a closed database.''))
        else
          let c1 = c\<lparr>handler := Some deadline\<rparr>;
              ran = evaluate clk deadline (polls ev) (k + 1);
              k1 = snd ran;
              res = (if fst ran then Fails (SqliteError ''interrupted'') else finish ev);
              c2 = c1\<lparr>handler := None\<rparr>
          in case res of
               Rows rows \<Rightarrow>
                 ((c2, k1 + 1),
                  Inr \<lparr>d_success = True, d_status = ''success'',
                       d_elapsed_ms = elapsed_ms_at start (clk k1),
                       d_results = map (\<lambda>r. PyTuple (map Scalar r)) rows, d_error = None\<rparr>)
             | Fails (SqliteError msg) \<Rightarrow>
                 ((c2, k1 + 1),
                  Inr \<lparr>d_success = False,
                       d_status = (if py_in ''interrupted'' (py_lower msg) then ''TimeOut'' else ''ExecFailed''),
                       d_elapsed_ms = elapsed_ms_at start (clk k1), d_results = [], d_error = Some msg\<rparr>)
             | Fails (OtherError msg) \<Rightarrow> ((c2, k1), Inl (OtherError msg)))"

section \<open>Agent loop controller (agent_old.py, agent/schemes.py)\<close>

record 'a SQLExecution =
  executed :: bool
  success :: bool
  status :: string
  elapsed_ms :: "real option"
  results :: "'a pyval list"
  error :: "string option"

record 'a QueryStep =
  reasoning :: string
  sql :: string
  execution :: "'a SQLExecution"

record 'a AgentResult =
  steps :: "'a QueryStep list"
  final_answer :: string

type_synonym schema = "(string \<times> string list) list"

text \<open>
  The oracle. A request is the planner prompt (question, schema, prior steps) or
  the summarization prompt (question, prior steps); the steps stand for their
  serialization by \<open>_steps_for_prompt\<close>. A reply is what \<open>_openai_chat\<close> and
  \<open>_extract_json\<close> make of the call: the call raises, the text is not JSON, the
  JSON is not an object, or it is an object, given as the map from its keys to
  \<open>str\<close> of their values.
\<close>

datatype 'a request =
    PlannerRequest string schema "'a QueryStep list"
  | FinalRequest string "'a QueryStep list"

datatype reply =
    ChatError pyexc
  | Malformed
  | NotObject
  | Payload "string \<Rightarrow> string option"

definition get :: "(string \<Rightarrow> string option) \<Rightarrow> string \<Rightarrow> string \<Rightarrow> string" where
  "get payload key dflt = (case payload key of None \<Rightarrow> dflt | Some v \<Rightarrow> v)"

text \<open>
  Everything outside the program during one \<open>run\<close>: the clock, SQLite's
  evaluation of the statement of each round, the oracle, and what opening the
  database file, reading its schema and closing the connection do.
\<close>

record 'a world =
  clock :: "nat \<Rightarrow> real"
  backend :: "nat \<Rightarrow> string \<Rightarrow> 'a db_run"
  chat :: "'a request \<Rightarrow> reply"
  open_error :: "string \<Rightarrow> pyexc option"
  schema_of :: "string \<Rightarrow> pyexc + schema"
  close_error :: "pyexc option"

text \<open>What the run does to the outside, in order.\<close>

datatype event = Plan | Summarize | Exec string | CloseConn

text \<open>
  \<open>get_db_connection\<close> (data/main.py) raises when the path is not a string or
  the file is missing or cannot be opened; \<open>get_database_schema\<close> queries the
  connection; \<open>connect_to_db\<close> (db_tools.py) calls one after the other.
\<close>

definition get_db_connection :: "'a world \<Rightarrow> string option \<Rightarrow> pyexc + conn" where
  "get_db_connection w db_file =
     (case db_file of
        None \<Rightarrow> Inl (OtherError ''TypeError'')
      | Some f \<Rightarrow>
          (case open_error w f of
             Some e \<Rightarrow> Inl e
           | None \<Rightarrow> Inr \<lparr>handler = None, closed = False, path = f\<rparr>))"

definition get_database_schema :: "'a world \<Rightarrow> conn \<Rightarrow> pyexc + schema" where
  "get_database_schema w c = schema_of w (path c)"

definition connect_to_db :: "'a world \<Rightarrow> string option \<Rightarrow> pyexc + (conn \<times> schema)" where
  "connect_to_db w db_file =
     (case get_db_connection w db_file of
        Inl e \<Rightarrow> Inl e
      | Inr c \<Rightarrow>
          (case get_database_schema w c of
             Inl e \<Rightarrow> Inl e
           | Inr sch \<Rightarrow> Inr (c, sch)))"

text \<open>
  \<^verbatim>\<open>
  def _normalize_results(results):
      normalized = []
      for row in results:
          if isinstance(row, tuple):
              normalized.append(list(row))
          else:
              normalized.append(row)
      return normalized
  \<close>
\<close>

fun normalize_row :: "'a pyval \<Rightarrow> 'a pyval" where
  "normalize_row (PyTuple xs) = PyList xs"
| "normalize_row r = r"

definition normalize_results :: "'a pyval list \<Rightarrow> 'a pyval list" where
  "normalize_results rs = map normalize_row rs"

text \<open>The local variables of \<open>run\<close> that change, with the trace of its effects.\<close>

record 'a run_state =
  the_conn :: conn
  clock_reads :: nat
  steps_so_far :: "'a QueryStep list"
  events :: "event list"

definition decode :: "reply \<Rightarrow> pyexc + (string \<Rightarrow> string option)" where
  "decode r =
     (case r of
        ChatError e \<Rightarrow> Inl e
      | Malformed \<Rightarrow> Inl (OtherError ''Model did not return valid JSON'')
      | NotObject \<Rightarrow> Inl (OtherError ''AttributeError'')
      | Payload p \<Rightarrow> Inr p)"

text \<open>
  The \<open>for _ in range(max_steps)\<close> loop of \<open>run\<close>, by the number of rounds left.
  The result is \<open>Inl\<close> of the exception that leaves the loop, or \<open>Inr\<close> of
  \<open>final_answer\<close> (\<open>None\<close> when the loop ran out of rounds).
\<close>

fun rounds ::
  "'a world \<Rightarrow> string \<Rightarrow> schema \<Rightarrow> int \<Rightarrow> nat \<Rightarrow> 'a run_state
     \<Rightarrow> 'a run_state \<times> (pyexc + string option)" where
  "rounds w question sch msx_ms 0 st = (st, Inr None)"
| "rounds w question sch msx_ms (Suc n) st =
     (let st1 = st\<lparr>events := events st @ [Plan]\<rparr> in
      case decode (chat w (PlannerRequest question sch (steps_so_far st))) of
        Inl e \<Rightarrow> (st1, Inl e)
      | Inr planner_payload \<Rightarrow>
          let action = py_lower (py_strip (get planner_payload ''action'' [])) in
          if action = ''final'' then
            (st1, Inr (Some (py_strip (get planner_payload ''final_answer'' []))))
          else if action \<noteq> ''query'' then
            (st1, Inr (Some ''Agent returned an invalid action.''))
          else
            let reasoning_text = get planner_payload ''reasoning'' [];
                sql_text = py_strip (get planner_payload ''sql'' [])
            in if sql_text = [] then
                 (st1, Inr (Some ''Agent did not provide SQL to execute.''))
               else
                 (case safe_query (clock w) (backend w (length (steps_so_far st)) sql_text)
                         (the_conn st1, clock_reads st1) sql_text msx_ms of
                    (st', Inl e) \<Rightarrow>
                      (st1\<lparr>the_conn := fst st', clock_reads := snd st',
                           events := events st1 @ [Exec sql_text]\<rparr>, Inl e)
                  | (st', Inr exec_dict) \<Rightarrow>
                      rounds w question sch msx_ms n
                        (st1\<lparr>the_conn := fst st', clock_reads := snd st',
                             events := events st1 @ [Exec sql_text],
                             steps_so_far := steps_so_far st @
                               [\<lparr>reasoning = reasoning_text, sql = sql_text,
                                 execution =
                                   \<lparr>executed = True, success = d_success exec_dict,
                                    status = d_status exec_dict,
                                    elapsed_ms = Some (d_elapsed_ms exec_dict),
                                    results = normalize_results (d_results exec_dict),
                                    error = d_error exec_dict\<rparr>\<rparr>]\<rparr>)))"

text \<open>The body of the \<open>try\<close> block of \<open>run\<close>: the loop, then the summarization
  call when no final answer has been set.\<close>

definition run_body ::
  "'a world \<Rightarrow> string \<Rightarrow> schema \<Rightarrow> int \<Rightarrow> int \<Rightarrow> 'a run_state
     \<Rightarrow> 'a run_state \<times> (pyexc + 'a AgentResult)" where
  "run_body w question sch msx_ms max_steps st0 =
     (case rounds w question sch msx_ms (nat max_steps) st0 of
        (st, Inl e) \<Rightarrow> (st, Inl e)
      | (st, Inr (Some answer)) \<Rightarrow> (st, Inr \<lparr>steps = steps_so_far st, final_answer = answer\<rparr>)
      | (st, Inr None) \<Rightarrow>
          (let st1 = st\<lparr>events := events st @ [Summarize]\<rparr> in
           case decode (chat w (FinalRequest question (steps_so_far st))) of
             Inl e \<Rightarrow> (st1, Inl e)
           | Inr final_payload \<Rightarrow>
               (st1, Inr \<lparr>steps = steps_so_far st,
                          final_answer = py_strip (get final_payload ''final_answer'' [])\<rparr>)))"

text \<open>\<open>conn.close()\<close>: the new connection state and the exception raised, if any.\<close>

definition close :: "'a world \<Rightarrow> conn \<Rightarrow> conn \<times> pyexc option" where
  "close w c =
     (case close_error w of
        Some e \<Rightarrow> (c, Some e)
      | None \<Rightarrow> (c\<lparr>handler := None, closed := True\<rparr>, None))"

text \<open>
  \<^verbatim>\<open>
  def run(self, question, db_file, msx_ms=30_000, max_steps=4):
      conn, schema = connect_to_db(db_file)
      run_exc = None
      try:
          ...
          return AgentResult(steps=steps, final_answer=final_answer)
      except BaseException as exc:
          run_exc = exc
          raise
      finally:
          try:
              conn.close()
          except BaseException:
              if run_exc is None:
                  raise
  \<close>
  The result is the connection that \<open>run\<close> bound (\<open>None\<close> when
  \<open>connect_to_db\<close> raised) in its last state, the trace, and what \<open>run\<close> returns
  or raises.
\<close>

definition run ::
  "'a world \<Rightarrow> string \<Rightarrow> string option \<Rightarrow> int \<Rightarrow> int
     \<Rightarrow> conn option \<times> event list \<times> (pyexc + 'a AgentResult)" where
  "run w question db_file msx_ms max_steps =
     (case connect_to_db w db_file of
        Inl e \<Rightarrow> (None, [], Inl e)
      | Inr (c, sch) \<Rightarrow>
          (let body = run_body w question sch msx_ms max_steps
                        \<lparr>the_conn = c, clock_reads = 0, steps_so_far = [], events = []\<rparr>;
               st = fst body;
               closing = close w (the_conn st)
           in (Some (fst closing), events st @ [CloseConn],
               (case snd body of
                  Inl run_exc \<Rightarrow> Inl run_exc
                | Inr result \<Rightarrow>
                    (case snd closing of
                       Some close_exc \<Rightarrow> Inl close_exc
                     | None \<Rightarrow> Inr result)))))"

section \<open>Experiment runner (evaluation/functions.py)\<close>

text \<open>A turn, with the keys \<open>run_experiment\<close> reads; \<open>None\<close> is a missing key
  or a null value.\<close>

record turn =
  text_of :: "string option"
  question_of :: "string option"
  db_file :: "string option"
  gold_sql :: "string option"

text \<open>Python truthiness of an optional string, and \<open>a or b or ""\<close>.\<close>

definition truthy :: "string option \<Rightarrow> bool" where
  "truthy x = (case x of None \<Rightarrow> False | Some s \<Rightarrow> s \<noteq> [])"

definition question_text :: "turn \<Rightarrow> string" where
  "question_text t =
     (if truthy (text_of t) then the (text_of t)
      else if truthy (question_of t) then the (question_of t) else [])"

text \<open>The test \<open>db_file and gold_sql and str(gold_sql).strip()\<close>.\<close>

definition has_reference :: "turn \<Rightarrow> bool" where
  "has_reference t =
     (truthy (db_file t) \<and> truthy (gold_sql t) \<and> py_strip (the (gold_sql t)) \<noteq> [])"

text \<open>One record of \<open>items\<close> (the fields that do not only repeat the input),
  and the counters of the loop.\<close>

record 'a item =
  pred_sql :: string
  pred_execution :: "'a SQLExecution option"
  gold_execution :: "'a exec_dict option"
  results_match :: "bool option"

record 'a tally =
  match_count :: nat
  comparable_count :: nat
  items :: "'a item list"

text \<open>
  The reference execution of one turn:
  \<^verbatim>\<open>
  conn = get_db_connection(db_file)
  try:
      gold_exec = safe_query(conn, str(gold_sql), msx_ms)
  finally:
      conn.close()
  \<close>
\<close>

definition reference_execution ::
  "'a world \<Rightarrow> string option \<Rightarrow> string \<Rightarrow> int \<Rightarrow> pyexc + 'a exec_dict" where
  "reference_execution w dbf gsql msx_ms =
     (case get_db_connection w dbf of
        Inl e \<Rightarrow> Inl e
      | Inr c \<Rightarrow>
          (case safe_query (clock w) (backend w 0 gsql) (c, 0) gsql msx_ms of
             (st', Inl e) \<Rightarrow> (case snd (close w (fst st')) of Some ce \<Rightarrow> Inl ce | None \<Rightarrow> Inl e)
           | (st', Inr d) \<Rightarrow> (case snd (close w (fst st')) of Some ce \<Rightarrow> Inl ce | None \<Rightarrow> Inr d)))"

text \<open>
  The body of \<open>for idx, t in enumerate(turns)\<close>. \<open>aw\<close> is the outside world of
  the agent's run on this turn and \<open>gw\<close> that of the reference execution;
  \<open>sr\<close> and \<open>e\<close> are \<open>repr\<close> and \<open>==\<close> on scalars.
\<close>

definition process_turn ::
  "('a \<Rightarrow> string) \<Rightarrow> ('a \<Rightarrow> 'a \<Rightarrow> bool) \<Rightarrow> int \<Rightarrow> int \<Rightarrow> bool
     \<Rightarrow> 'a world \<Rightarrow> 'a world \<Rightarrow> turn \<Rightarrow> 'a tally \<Rightarrow> pyexc + 'a tally" where
  "process_turn sr e msx_ms max_steps order_insensitive aw gw t acc =
     (case snd (snd (run aw (question_text t) (db_file t) msx_ms max_steps)) of
        Inl ex \<Rightarrow> Inl ex
      | Inr agent_result \<Rightarrow>
          (let psql = (if steps agent_result \<noteq> [] then sql (last (steps agent_result)) else []);
               pred_exec = (if steps agent_result \<noteq> []
                            then Some (execution (last (steps agent_result))) else None);
               pred_rows = (if steps agent_result \<noteq> []
                            then results (execution (last (steps agent_result))) else [])
           in if has_reference t then
                (case reference_execution gw (db_file t) (the (gold_sql t)) msx_ms of
                   Inl ex \<Rightarrow> Inl ex
                 | Inr gold_exec \<Rightarrow>
                     (let gold_rows = d_results gold_exec;
                          verdict =
                            (case pred_exec of
                               None \<Rightarrow> None
                             | Some p \<Rightarrow>
                                 if success p \<and> d_success gold_exec
                                 then Some (compare_results sr e pred_rows gold_rows order_insensitive)
                                 else Some False)
                      in Inr \<lparr>match_count =
                                (if verdict = Some True then match_count acc + 1 else match_count acc),
                              comparable_count = comparable_count acc + 1,
                              items = items acc @
                                [\<lparr>pred_sql = psql, pred_execution = pred_exec,
                                  gold_execution = Some gold_exec, results_match = verdict\<rparr>]\<rparr>))
              else
                Inr (acc\<lparr>items := items acc @
                      [\<lparr>pred_sql = psql, pred_execution = pred_exec,
                        gold_execution = None, results_match = None\<rparr>]\<rparr>)))"

text \<open>The loop over the turns, from index \<open>idx\<close> on, and the accuracy
  \<open>(match_count / comparable_count) if comparable_count else None\<close>.\<close>

fun process_turns ::
  "('a \<Rightarrow> string) \<Rightarrow> ('a \<Rightarrow> 'a \<Rightarrow> bool) \<Rightarrow> int \<Rightarrow> int \<Rightarrow> bool
     \<Rightarrow> (nat \<Rightarrow> 'a world) \<Rightarrow> (nat \<Rightarrow> 'a world) \<Rightarrow> nat \<Rightarrow> turn list \<Rightarrow> 'a tally
     \<Rightarrow> pyexc + 'a tally" where
  "process_turns sr e msx_ms max_steps oi aws gws idx [] acc = Inr acc"
| "process_turns sr e msx_ms max_steps oi aws gws idx (t # ts) acc =
     (case process_turn sr e msx_ms max_steps oi (aws idx) (gws idx) t acc of
        Inl ex \<Rightarrow> Inl ex
      | Inr acc' \<Rightarrow> process_turns sr e msx_ms max_steps oi aws gws (Suc idx) ts acc')"

definition accuracy :: "'a tally \<Rightarrow> real option" where
  "accuracy acc =
     (if comparable_count acc \<noteq> 0
      then Some (real (match_count acc) / real (comparable_count acc)) else None)"

section \<open>Scalars for concrete runs\<close>

text \<open>\<open>repr\<close> of a Python \<open>int\<close>: the decimal digits, with a minus sign for a
  negative number. Python's \<open>==\<close> on two \<open>int\<close>s is equality.\<close>

fun digits_of :: "nat \<Rightarrow> string" where
  "digits_of n =
     (if n < 10 then [char_of (48 + n)] else digits_of (n div 10) @ [char_of (48 + n mod 10)])"

definition repr_int :: "int \<Rightarrow> string" where
  "repr_int i = (if i < 0 then CHR ''-'' # digits_of (nat (- i)) else digits_of (nat i))"

section \<open>The guard in the words of the specification\<close>

text \<open>
  The end of a token: the text is over or goes on with a character that is not a
  word character. A run of one or more whitespace characters.
\<close>

definition token_end :: "string \<Rightarrow> bool" where
  "token_end rest = (case rest of [] \<Rightarrow> True | c # _ \<Rightarrow> \<not> py_isword c)"

definition spaces1 :: "string \<Rightarrow> bool" where
  "spaces1 s = (s \<noteq> [] \<and> list_all py_isspace s)"

text \<open>
  ``An optional leading \<open>explain\<close> or \<open>explain query plan\<close> prefix followed by
  \<open>select\<close> or \<open>with\<close> as the first token'': the text is whitespace, then
  nothing or \<open>explain\<close> or \<open>explain query plan\<close> (the words separated and
  followed by whitespace), then one of the two keywords, ending as a token.
\<close>

definition explain_lead :: "string \<Rightarrow> bool" where
  "explain_lead lead =
     (lead = []
      \<or> (\<exists>s1. spaces1 s1 \<and> lead = ''explain'' @ s1)
      \<or> (\<exists>s1 s2 s3. spaces1 s1 \<and> spaces1 s2 \<and> spaces1 s3
            \<and> lead = ''explain'' @ s1 @ ''query'' @ s2 @ ''plan'' @ s3))"

definition read_prefix :: "string \<Rightarrow> bool" where
  "read_prefix t =
     (\<exists>ws lead kw rest. t = ws @ lead @ kw @ rest \<and> list_all py_isspace ws \<and> explain_lead lead
        \<and> (kw = ''select'' \<or> kw = ''with'') \<and> token_end rest)"

text \<open>``A whole-word occurrence of \<open>w\<close>'' in \<open>t\<close>: an occurrence with no word
  character next to it on either side.\<close>

definition whole_word :: "string \<Rightarrow> string \<Rightarrow> bool" where
  "whole_word w t =
     (\<exists>pre post. t = pre @ w @ post \<and> (pre = [] \<or> \<not> py_isword (last pre)) \<and> token_end post)"

text \<open>
  The normalization as the claim words it: comments and literals stripped,
  whitespace trimmed, trailing semicolons trimmed, lowercased. (The code trims
  the semicolons last, and at both ends: \<open>cleaned\<close>.)
\<close>

definition spec_cleaned :: "string \<Rightarrow> string" where
  "spec_cleaned statement =
     py_lower (rstrip_p (\<lambda>c. c = CHR '';'') (py_strip (strip_comments_and_literals statement)))"

definition spec_read_only :: "string \<Rightarrow> bool" where
  "spec_read_only statement =
     (read_prefix (spec_cleaned statement)
      \<and> \<not> (\<exists>w\<in>set prohibited_terms. whole_word w (spec_cleaned statement)))"

text \<open>
  The position reached from a position with \<open>p\<close> before it by consuming
  \<open>pre\<close>; and a pattern without anchors, whose matches from a position are
  exactly the ways of consuming a text of the language \<open>L\<close>.
\<close>

definition after :: "char option \<Rightarrow> string \<Rightarrow> char option" where
  "after p pre = (if pre = [] then p else Some (last pre))"

definition consumes :: "rx \<Rightarrow> string set \<Rightarrow> bool" where
  "consumes r L =
     (\<forall>p s q t. (q, t) \<in> set (ends r (p, s)) \<longleftrightarrow>
        (\<exists>pre. s = pre @ t \<and> q = after p pre \<and> pre \<in> L))"

section \<open>The canonical row text in the words of the specification\<close>

text \<open>
  ``Each row rendered as a tuple, a bare scalar as a 1-tuple'': the elements of
  a row (of a bare scalar, the scalar alone), and the text of the tuple of these
  elements, which is their texts separated by a comma and a space, in
  parentheses, with a comma after the only element of a 1-tuple.
\<close>

definition row_elements :: "'a pyval \<Rightarrow> 'a pyval list" where
  "row_elements r = (case r of Scalar a \<Rightarrow> [Scalar a] | PyTuple xs \<Rightarrow> xs | PyList xs \<Rightarrow> xs)"

definition tuple_text :: "string list \<Rightarrow> string" where
  "tuple_text ts =
     (if length ts = 1 then ''('' @ hd ts @ '',)'' else ''('' @ join '', '' ts @ '')'')"

definition spec_row_text :: "('a \<Rightarrow> string) \<Rightarrow> 'a pyval \<Rightarrow> string" where
  "spec_row_text sr r = tuple_text (map (py_repr sr) (row_elements r))"

section \<open>Concrete inputs\<close>

text \<open>A clock that advances two seconds between readings, and one that reads
  1.0 and then stays at 1.001 (the float: \<open>2254051613498933 / 2 ^ 51\<close>); a connection with
  no handler and one on which a handler with deadline 5 was left; a statement
  that yields the single row \<open>(1,)\<close>, without and with one invocation of the
  progress handler.\<close>

definition clock_2s :: "nat \<Rightarrow> real" where
  "clock_2s n = 2 * real n"


definition fresh_conn :: conn where
  "fresh_conn = \<lparr>handler = None, closed = False, path = ''db''\<rparr>"


definition one_row :: "int db_run" where
  "one_row = \<lparr>polls = 0, finish = Rows [[1]]\<rparr>"


text \<open>An oracle that always answers \<open>{"action": "query", "sql": "SELECT 1",
  "final_answer": "done"}\<close>, one that always answers \<open>{"action": "final",
  "final_answer": "5"}\<close>, and one whose call fails.\<close>

definition query_payload :: "string \<Rightarrow> string option" where
  "query_payload key =
     (if key = ''action'' then Some ''query''
      else if key = ''sql'' then Some ''SELECT 1''
      else if key = ''final_answer'' then Some ''done'' else None)"

definition final_payload :: "string \<Rightarrow> string option" where
  "final_payload key =
     (if key = ''action'' then Some ''final''
      else if key = ''final_answer'' then Some ''5'' else None)"

definition always_query :: "int request \<Rightarrow> reply" where
  "always_query req = Payload query_payload"

definition always_final :: "int request \<Rightarrow> reply" where
  "always_final req = Payload final_payload"

definition failing_chat :: "int request \<Rightarrow> reply" where
  "failing_chat req = ChatError (OtherError ''URLError'')"

text \<open>A database file that opens, has no tables, and answers every statement
  with the row \<open>(1,)\<close>; three worlds around it.\<close>

definition always_one_row :: "nat \<Rightarrow> string \<Rightarrow> int db_run" where
  "always_one_row k s = one_row"

definition opens :: "string \<Rightarrow> pyexc option" where
  "opens f = None"

definition no_tables :: "string \<Rightarrow> pyexc + schema" where
  "no_tables f = Inr []"

definition query_world :: "int world" where
  "query_world = \<lparr>clock = clock_2s, backend = always_one_row, chat = always_query,
                   open_error = opens, schema_of = no_tables, close_error = None\<rparr>"

definition final_world :: "int world" where
  "final_world = \<lparr>clock = clock_2s, backend = always_one_row, chat = always_final,
                   open_error = opens, schema_of = no_tables, close_error = None\<rparr>"

definition broken_world :: "int world" where
  "broken_world = \<lparr>clock = clock_2s, backend = always_one_row, chat = failing_chat,
                    open_error = opens, schema_of = no_tables,
                    close_error = Some (SqliteError ''close failed'')\<rparr>"





text \<open>A file that opens and is not a database: \<open>sqlite3.connect\<close> returns a
  connection, and the first query on it, the one of \<open>get_database_schema\<close>,
  raises \<open>sqlite3.DatabaseError\<close>.\<close>

definition not_a_database :: "string \<Rightarrow> pyexc + schema" where
  "not_a_database f = Inl (SqliteError ''file is not a database'')"

definition garbage_world :: "int world" where
  "garbage_world = \<lparr>clock = clock_2s, backend = always_one_row, chat = always_query,
                     open_error = opens, schema_of = not_a_database, close_error = None\<rparr>"

text \<open>A turn with the reference \<open>SELECT 1\<close>, and the counters before the first turn.\<close>

definition ref_turn :: turn where
  "ref_turn = \<lparr>text_of = Some ''How many?'', question_of = None,
                db_file = Some ''db'', gold_sql = Some ''SELECT 1''\<rparr>"

definition no_ref_turn :: turn where
  "no_ref_turn = \<lparr>text_of = Some ''How many?'', question_of = None,
                   db_file = Some ''db'', gold_sql = None\<rparr>"

definition empty_tally :: "int tally" where
  "empty_tally = \<lparr>match_count = 0, comparable_count = 0, items = []\<rparr>"

section \<open>The comparator is order-independent\<close>

lemma tuple_repr_text: "tuple_repr ts = tuple_text ts"
  by (cases ts rule: tuple_repr.cases) (simp_all add: tuple_text_def)

lemma row_repr_text: "row_repr sr r = spec_row_text sr r"
  by (cases r) (simp_all add: spec_row_text_def row_elements_def tuple_repr_text)

lemma canonicalize_rows_text: "canonicalize_rows sr rows = sort (map (spec_row_text sr) rows)"
proof -
  have "row_repr sr = spec_row_text sr" by (rule ext) (rule row_repr_text)
  then show ?thesis by (simp add: canonicalize_rows_def)
qed

lemma sort_eq_iff_mset:
  fixes xs ys :: "string list"
  shows "sort xs = sort ys \<longleftrightarrow> mset xs = mset ys"
proof
  assume "sort xs = sort ys"
  then have "mset (sort xs) = mset (sort ys)" by simp
  then show "mset xs = mset ys" by simp
next
  assume "mset xs = mset ys"
  then show "sort xs = sort ys"
    by (intro properties_for_sort) simp_all
qed

text \<open>
  Claim C6. \<open>_canonicalize_rows\<close> has a result for every list of rows: the
  sorted list of the rows' texts, one for each row, where the text of a row is
  the one of the tuple of its elements and the text of a bare scalar \<open>a\<close> is the
  one of the 1-tuple \<open>(a,)\<close>. In order-insensitive mode two row lists compare
  equal exactly when these sorted lists are equal, which is when the texts agree
  as multisets; so a list and any permutation of it compare equal, and two lists
  of different lengths never do. The rows \<open>(2, 10)\<close>, \<open>[1]\<close> and \<open>-3\<close> have
  the canonical form \<open>(-3,)\<close>, \<open>(1,)\<close>, \<open>(2, 10)\<close>, and the row \<open>(1,)\<close>
  does not compare equal to the row \<open>(2,)\<close>. In order-sensitive mode a
  permutation of a list can compare unequal to it.
\<close>

theorem compare_order_insensitive:
  "canonicalize_rows sr R = sort (map (spec_row_text sr) R)
   \<and> length (canonicalize_rows sr R) = length R
   \<and> sorted (canonicalize_rows sr R)
   \<and> (compare_results sr e R P True \<longleftrightarrow>
        sort (map (spec_row_text sr) R) = sort (map (spec_row_text sr) P))
   \<and> (compare_results sr e R P True \<longleftrightarrow>
        mset (map (spec_row_text sr) R) = mset (map (spec_row_text sr) P))
   \<and> (mset P = mset R \<longrightarrow> compare_results sr e R P True)
   \<and> (length R \<noteq> length P \<longrightarrow> \<not> compare_results sr e R P True)
   \<and> spec_row_text sr (Scalar a) = ''('' @ sr a @ '',)''
   \<and> spec_row_text sr (PyTuple []) = ''()''
   \<and> spec_row_text sr (PyTuple [Scalar a]) = ''('' @ sr a @ '',)''
   \<and> spec_row_text sr (PyTuple [Scalar a, Scalar b]) = ''('' @ sr a @ '', '' @ sr b @ '')''
   \<and> spec_row_text sr (PyList xs) = spec_row_text sr (PyTuple xs)
   \<and> canonicalize_rows repr_int [PyTuple [Scalar 2, Scalar 10], PyList [Scalar 1], Scalar (- 3)]
       = [''(-3,)'', ''(1,)'', ''(2, 10)'']
   \<and> \<not> compare_results repr_int (=) [PyTuple [Scalar 1]] [PyTuple [Scalar 2]] True
   \<and> (\<exists>R' P'. mset P' = mset R' \<and> \<not> compare_results sr e R' P' False)"
proof -
  have c0: "canonicalize_rows sr R = sort (map (spec_row_text sr) R)"
    by (rule canonicalize_rows_text)
  have c1: "length (canonicalize_rows sr R) = length R" "sorted (canonicalize_rows sr R)"
    by (simp_all add: canonicalize_rows_def)
  have a: "compare_results sr e R P True \<longleftrightarrow>
      sort (map (spec_row_text sr) R) = sort (map (spec_row_text sr) P)"
    by (simp add: compare_results_def canonicalize_rows_text)
  have b: "compare_results sr e R P True \<longleftrightarrow>
      mset (map (spec_row_text sr) R) = mset (map (spec_row_text sr) P)"
    using a by (simp only: sort_eq_iff_mset)
  have c: "mset P = mset R \<longrightarrow> compare_results sr e R P True"
  proof
    assume "mset P = mset R"
    then have "image_mset (spec_row_text sr) (mset P) = image_mset (spec_row_text sr) (mset R)"
      by simp
    then show "compare_results sr e R P True" by (simp add: b)
  qed
  have d: "length R \<noteq> length P \<longrightarrow> \<not> compare_results sr e R P True"
  proof (intro impI notI)
    assume ne: "length R \<noteq> length P" and "compare_results sr e R P True"
    then have "mset (map (spec_row_text sr) R) = mset (map (spec_row_text sr) P)"
      by (simp only: b)
    then have "size (mset (map (spec_row_text sr) R)) = size (mset (map (spec_row_text sr) P))"
      by simp
    with ne show False by simp
  qed
  have t: "spec_row_text sr (Scalar a) = ''('' @ sr a @ '',)''"
    "spec_row_text sr (PyTuple []) = ''()''"
    "spec_row_text sr (PyTuple [Scalar a]) = ''('' @ sr a @ '',)''"
    "spec_row_text sr (PyTuple [Scalar a, Scalar b]) = ''('' @ sr a @ '', '' @ sr b @ '')''"
    "spec_row_text sr (PyList xs) = spec_row_text sr (PyTuple xs)"
    by (simp_all add: spec_row_text_def row_elements_def tuple_text_def)
  have ex: "canonicalize_rows repr_int [PyTuple [Scalar 2, Scalar 10], PyList [Scalar 1], Scalar (- 3)]
       = [''(-3,)'', ''(1,)'', ''(2, 10)'']"
    by code_simp
  have neg: "\<not> compare_results repr_int (=) [PyTuple [Scalar 1]] [PyTuple [Scalar 2]] True"
    by code_simp
  let ?R = "[PyTuple [], PyTuple [PyTuple []]] :: 'a pyval list"
  let ?P = "[PyTuple [PyTuple []], PyTuple []] :: 'a pyval list"
  have "mset ?P = mset ?R \<and> \<not> compare_results sr e ?R ?P False"
    by (simp add: compare_results_def)
  then have f: "\<exists>R' P'. mset P' = mset R' \<and> \<not> compare_results sr e R' P' False" by blast
  from c0 c1 a b c d t ex neg f show ?thesis by blast
qed

text \<open>The rows \<open>(1,)\<close>, \<open>(2,)\<close> against \<open>(2,)\<close>, \<open>(1,)\<close>: equal when the order
  is ignored, unequal when it is not. The row \<open>(1,)\<close> against the rows
  \<open>(1,)\<close>, \<open>(1,)\<close>, and against the row \<open>(2,)\<close>: unequal when the order is
  ignored.\<close>

theorem compare_order_insensitive_witness:
  "mset [PyTuple [Scalar (2::int)], PyTuple [Scalar 1]] = mset [PyTuple [Scalar 1], PyTuple [Scalar 2]]
   \<and> compare_results repr_int (=) [PyTuple [Scalar 1], PyTuple [Scalar 2]]
        [PyTuple [Scalar 2], PyTuple [Scalar 1]] True
   \<and> \<not> compare_results repr_int (=) [PyTuple [Scalar 1], PyTuple [Scalar 2]]
        [PyTuple [Scalar 2], PyTuple [Scalar 1]] False
   \<and> length [PyTuple [Scalar (1::int)]] \<noteq> length [PyTuple [Scalar (1::int)], PyTuple [Scalar 1]]
   \<and> \<not> compare_results repr_int (=) [PyTuple [Scalar 1]]
        [PyTuple [Scalar 1], PyTuple [Scalar 1]] True
   \<and> sort (map (spec_row_text repr_int) [PyTuple [Scalar 1]]) = [''(1,)'']
   \<and> sort (map (spec_row_text repr_int) [PyTuple [Scalar 2]]) = [''(2,)'']
   \<and> \<not> compare_results repr_int (=) [PyTuple [Scalar 1]] [PyTuple [Scalar 2]] True"
proof -
  have h: "mset [PyTuple [Scalar (2::int)], PyTuple [Scalar 1]] = mset [PyTuple [Scalar 1], PyTuple [Scalar 2]]"
    by simp
  have pos: "compare_results repr_int (=) [PyTuple [Scalar 1], PyTuple [Scalar 2]]
        [PyTuple [Scalar 2], PyTuple [Scalar 1]] True"
    using compare_order_insensitive [of repr_int "[PyTuple [Scalar 1], PyTuple [Scalar 2]]" "(=)"
        "[PyTuple [Scalar 2], PyTuple [Scalar 1]]"] h by blast
  have sens: "\<not> compare_results repr_int (=) [PyTuple [Scalar (1::int)], PyTuple [Scalar 2]]
        [PyTuple [Scalar 2], PyTuple [Scalar 1]] False"
    by (simp add: compare_results_def)
  have l: "length [PyTuple [Scalar (1::int)]] \<noteq> length [PyTuple [Scalar (1::int)], PyTuple [Scalar 1]]"
    by simp
  have dup: "\<not> compare_results repr_int (=) [PyTuple [Scalar 1]]
        [PyTuple [Scalar 1], PyTuple [Scalar 1]] True"
    using compare_order_insensitive [of repr_int "[PyTuple [Scalar 1]]" "(=)"
        "[PyTuple [Scalar 1], PyTuple [Scalar 1]]"] l by blast
  have s1: "sort (map (spec_row_text repr_int) [PyTuple [Scalar 1]]) = [''(1,)'']"
    and s2: "sort (map (spec_row_text repr_int) [PyTuple [Scalar 2]]) = [''(2,)'']"
    by code_simp+
  have "compare_results repr_int (=) [PyTuple [Scalar 1]] [PyTuple [Scalar 2]] True \<longleftrightarrow>
      sort (map (spec_row_text repr_int) [PyTuple [Scalar 1]])
        = sort (map (spec_row_text repr_int) [PyTuple [Scalar 2]])"
    using compare_order_insensitive [of repr_int "[PyTuple [Scalar 1]]" "(=)"
        "[PyTuple [Scalar 2]]"] by blast
  then have neg: "\<not> compare_results repr_int (=) [PyTuple [Scalar 1]] [PyTuple [Scalar 2]] True"
    by (simp only: s1 s2) simp
  from h pos sens l dup s1 s2 neg show ?thesis by blast
qed

section \<open>The guard on concrete statements\<close>

text \<open>
  Claim C10. \<open>SELECT * FROM t WHERE name='drop table'\<close> is allowed: the literal is
  replaced by \<open>''\<close> before the search for prohibited words.
\<close>

theorem literal_keyword_allowed:
  "strip_comments_and_literals (''SELECT * FROM t WHERE name='' @ [CHR 0x27] @ ''drop table'' @ [CHR 0x27])
     = ''SELECT * FROM t WHERE name='' @ [CHR 0x27, CHR 0x27]
   \<and> is_read_only (''SELECT * FROM t WHERE name='' @ [CHR 0x27] @ ''drop table'' @ [CHR 0x27])"
  by code_simp

text \<open>
  Claim C2. The pattern for line comments, \<open>--.*?(|$)\<close>, matches the two dashes
  only, whatever follows them: the lazy \<open>.*?\<close> first takes no character and
  the empty alternative of the group then succeeds. So \<open>re.sub\<close> puts one
  space for the dashes and goes on with the text of the comment, which stays. A
  prohibited word in it rejects the statement: \<open>SELECT 1 -- drop\<close> is rejected,
  while \<open>SELECT 1 /* drop */\<close>, with the same word in a block comment, is allowed.
\<close>

theorem line_comment_keyword_rejected:
  "hd (ends line_comment_rx (p, ''--'' @ rest)) = (Some (CHR ''-''), rest)
   \<and> sub_from line_comment_rx '' '' (p, ''--'' @ rest)
       = '' '' @ sub_from line_comment_rx '' '' (Some (CHR ''-''), rest)
   \<and> strip_comments_and_literals ''SELECT 1 -- drop'' = ''SELECT 1   drop''
   \<and> \<not> is_read_only ''SELECT 1 -- drop''
   \<and> is_read_only ''SELECT 1 /* drop */''"
proof -
  have a: "hd (ends line_comment_rx (p, ''--'' @ rest)) = (Some (CHR ''-''), rest)"
    by (cases rest) (simp_all add: line_comment_rx_def)
  have b: "sub_from line_comment_rx '' '' (p, ''--'' @ rest)
       = '' '' @ sub_from line_comment_rx '' '' (Some (CHR ''-''), rest)"
    by (cases rest) (simp_all add: line_comment_rx_def)
  have c: "strip_comments_and_literals ''SELECT 1 -- drop'' = ''SELECT 1   drop''
      \<and> \<not> is_read_only ''SELECT 1 -- drop''
      \<and> is_read_only ''SELECT 1 /* drop */''"
    by code_simp
  from a b c show ?thesis by blast
qed

section \<open>The execution engine: deadline and progress handler\<close>

lemma select_1_ok: "is_read_only ''SELECT 1''"
  by code_simp




lemma fl64_2: "fl64 2 = 2"
  by code_simp

lemma fl64_2000: "fl64 2000 = 2000"
  by code_simp

lemma elapsed_2s: "now - start = 2 \<Longrightarrow> elapsed_ms_at start now = 2000"
  by (simp add: elapsed_ms_at_def fl64_2 fl64_2000)














section \<open>The controller and the runner\<close>


lemma rounds_events:
  "\<exists>tr. events (fst (rounds w qn sch ms n st)) = events st @ tr \<and> CloseConn \<notin> set tr"
proof (induction n arbitrary: st)
  case 0
  then show ?case by simp
next
  case (Suc n)
  have step: "\<exists>tr. events (fst (rounds w qn sch ms n st2)) = events st @ tr \<and> CloseConn \<notin> set tr"
    if "events st2 = events st @ pre" "CloseConn \<notin> set pre" for st2 pre
  proof -
    from Suc.IH [of st2] obtain tr' where
      "events (fst (rounds w qn sch ms n st2)) = events st2 @ tr'" "CloseConn \<notin> set tr'"
      by blast
    with that have "events (fst (rounds w qn sch ms n st2)) = events st @ (pre @ tr')
        \<and> CloseConn \<notin> set (pre @ tr')" by simp
    then show ?thesis by blast
  qed
  show ?case
    by (auto simp: Let_def split: sum.splits prod.splits intro!: step [where pre = "[Plan, Exec _]"])
qed

lemma run_body_events:
  "\<exists>tr. events (fst (run_body w qn sch ms mx st)) = events st @ tr \<and> CloseConn \<notin> set tr"
proof -
  obtain tr where tr: "events (fst (rounds w qn sch ms (nat mx) st)) = events st @ tr"
    "CloseConn \<notin> set tr"
    using rounds_events by blast
  obtain st1 r where r: "rounds w qn sch ms (nat mx) st = (st1, r)" by (cases "rounds w qn sch ms (nat mx) st")
  with tr have e: "events st1 = events st @ tr" by simp
  show ?thesis
  proof (cases r)
    case (Inl ex)
    with r e tr show ?thesis by (simp add: run_body_def)
  next
    case (Inr fa)
    show ?thesis
    proof (cases fa)
      case None
      with Inr r e tr have
        "events (fst (run_body w qn sch ms mx st)) = events st @ (tr @ [Summarize])
         \<and> CloseConn \<notin> set (tr @ [Summarize])"
        by (simp add: run_body_def Let_def split: sum.splits)
      then show ?thesis by blast
    next
      case (Some a)
      with Inr r e tr show ?thesis by (simp add: run_body_def)
    qed
  qed
qed

text \<open>
  When \<open>connect_to_db\<close> has returned the connection, \<open>conn.close()\<close>
  is called exactly once, as the last thing \<open>run\<close> does, on every exit path;
  when the close does not raise, the connection is closed. An exception of the
  body is what \<open>run\<close> raises, whether the close raises or not; the exception of
  the close is raised only when the body has returned a result.
\<close>

lemma close_after_connect:
  assumes "connect_to_db w dbf = Inr (c, sch)"
  shows "(\<exists>tr. fst (snd (run w qn dbf ms mx)) = tr @ [CloseConn] \<and> CloseConn \<notin> set tr)
       \<and> (close_error w = None \<longrightarrow> (\<exists>c'. fst (run w qn dbf ms mx) = Some c' \<and> closed c'))
       \<and> (\<forall>ex. snd (run_body w qn sch ms mx
                   \<lparr>the_conn = c, clock_reads = 0, steps_so_far = [], events = []\<rparr>) = Inl ex
             \<longrightarrow> snd (snd (run w qn dbf ms mx)) = Inl ex)
       \<and> (\<forall>res. snd (run_body w qn sch ms mx
                   \<lparr>the_conn = c, clock_reads = 0, steps_so_far = [], events = []\<rparr>) = Inr res
             \<longrightarrow> snd (snd (run w qn dbf ms mx))
                 = (case close_error w of None \<Rightarrow> Inr res | Some ce \<Rightarrow> Inl ce))"
proof -
  let ?st0 = "\<lparr>the_conn = c, clock_reads = 0, steps_so_far = [], events = []\<rparr> :: 'a run_state"
  from run_body_events [of w qn sch ms mx ?st0] obtain tr where
    tr: "events (fst (run_body w qn sch ms mx ?st0)) = tr" "CloseConn \<notin> set tr" by auto
  have a: "\<exists>tr. fst (snd (run w qn dbf ms mx)) = tr @ [CloseConn] \<and> CloseConn \<notin> set tr"
    using assms tr by (simp add: run_def Let_def)
  have b: "close_error w = None \<longrightarrow> (\<exists>c'. fst (run w qn dbf ms mx) = Some c' \<and> closed c')"
    using assms by (simp add: run_def Let_def close_def)
  have c: "\<forall>ex. snd (run_body w qn sch ms mx ?st0) = Inl ex
             \<longrightarrow> snd (snd (run w qn dbf ms mx)) = Inl ex"
    using assms by (simp add: run_def Let_def)
  have d: "\<forall>res. snd (run_body w qn sch ms mx ?st0) = Inr res
             \<longrightarrow> snd (snd (run w qn dbf ms mx))
                 = (case close_error w of None \<Rightarrow> Inr res | Some ce \<Rightarrow> Inl ce)"
    using assms by (auto simp: run_def Let_def close_def split: option.splits)
  from a b c d show ?thesis by blast
qed

text \<open>
  Claim C9 fails on one exit path. \<open>connect_to_db\<close> opens the connection and
  then reads the schema, and nothing closes the connection when that reading
  raises; \<open>run\<close> calls \<open>connect_to_db\<close> before its \<open>try\<close>. So when the
  file opens and the schema query raises, \<open>run\<close> raises that error, and the
  connection that \<open>get_db_connection\<close> returned, which is open, is not closed:
  \<open>run\<close> has no effect at all, and no close among its effects.
\<close>

theorem schema_failure_leaves_connection_open:
  assumes "get_db_connection w dbf = Inr c" and "get_database_schema w c = Inl ex"
  shows "\<not> closed c \<and> run w qn dbf ms mx = (None, [], Inl ex)
       \<and> CloseConn \<notin> set (fst (snd (run w qn dbf ms mx)))"
proof -
  from assms(1) have "\<not> closed c"
    by (auto simp: get_db_connection_def split: option.splits)
  moreover from assms have "run w qn dbf ms mx = (None, [], Inl ex)"
    by (simp add: run_def connect_to_db_def)
  ultimately show ?thesis by simp
qed



lemma safe_query_rows_are_tuples:
  "snd (safe_query clk ev st q ms) = Inr d \<Longrightarrow> \<forall>r\<in>set (d_results d). \<exists>xs. r = PyTuple xs"
  by (auto simp: safe_query_def Let_def split: db_finish.splits pyexc.splits if_splits)

lemma reference_rows_are_tuples:
  "reference_execution gw dbf gq ms = Inr g \<Longrightarrow> \<forall>r\<in>set (d_results g). \<exists>xs. r = PyTuple xs"
proof -
  assume a: "reference_execution gw dbf gq ms = Inr g"
  then obtain c where c: "get_db_connection gw dbf = Inr c"
    by (auto simp: reference_execution_def split: sum.splits)
  with a have "snd (safe_query (clock gw) (backend gw 0 gq) (c, 0) gq ms) = Inr g"
    by (auto simp: reference_execution_def split: sum.splits prod.splits option.splits)
  then show ?thesis by (rule safe_query_rows_are_tuples)
qed

lemma normalized_rows_are_lists:
  "\<forall>r\<in>set rs. \<exists>xs. r = PyTuple xs \<Longrightarrow> \<forall>r\<in>set (normalize_results rs). \<exists>xs. r = PyList xs"
  by (auto simp: normalize_results_def)

lemma rounds_Suc:
  "steps_so_far (fst (rounds w qn sch ms (Suc n) st)) = steps_so_far st
   \<or> (\<exists>st2 s1 d ev stq q0.
        rounds w qn sch ms (Suc n) st = rounds w qn sch ms n st2
        \<and> steps_so_far st2 = steps_so_far st @ [s1]
        \<and> results (execution s1) = normalize_results (d_results d)
        \<and> snd (safe_query (clock w) ev stq q0 ms) = Inr d)"
proof (cases "decode (chat w (PlannerRequest qn sch (steps_so_far st)))")
  case (Inl ex)
  then show ?thesis by (simp add: Let_def)
next
  case (Inr p)
  let ?s = "py_strip (get p ''sql'' [])"
  let ?ev = "backend w (length (steps_so_far st)) ?s"
  let ?stq = "(the_conn st, clock_reads st)"
  show ?thesis
  proof (cases "py_lower (py_strip (get p ''action'' [])) = ''query'' \<and> ?s \<noteq> []")
    case False
    with Inr show ?thesis by (auto simp: Let_def)
  next
    case True
    obtain st' r where sq: "safe_query (clock w) ?ev ?stq ?s ms = (st', r)"
      by (cases "safe_query (clock w) ?ev ?stq ?s ms")
    show ?thesis
    proof (cases r)
      case (Inl ex)
      with Inr True sq show ?thesis by (simp add: Let_def)
    next
      case (Inr d)
      define s1 where "s1 = \<lparr>reasoning = get p ''reasoning'' [], sql = ?s,
         execution = \<lparr>executed = True, success = d_success d, status = d_status d,
                    elapsed_ms = Some (d_elapsed_ms d),
                    results = normalize_results (d_results d), error = d_error d\<rparr>\<rparr>"
      define st2 where "st2 = st\<lparr>the_conn := fst st', clock_reads := snd st',
         events := events st @ [Plan, Exec ?s], steps_so_far := steps_so_far st @ [s1]\<rparr>"
      have "rounds w qn sch ms (Suc n) st = rounds w qn sch ms n st2"
        using \<open>decode (chat w (PlannerRequest qn sch (steps_so_far st))) = Inr p\<close> True sq Inr
        by (simp add: Let_def st2_def s1_def)
      moreover have "steps_so_far st2 = steps_so_far st @ [s1]" by (simp add: st2_def)
      moreover have "results (execution s1) = normalize_results (d_results d)" by (simp add: s1_def)
      moreover have "snd (safe_query (clock w) ?ev ?stq ?s ms) = Inr d" using sq Inr by simp
      ultimately show ?thesis by blast
    qed
  qed
qed

lemma rounds_rows_are_lists:
  "\<forall>s\<in>set (steps_so_far st). \<forall>r\<in>set (results (execution s)). \<exists>xs. r = PyList xs \<Longrightarrow>
   \<forall>s\<in>set (steps_so_far (fst (rounds w qn sch ms n st))).
      \<forall>r\<in>set (results (execution s)). \<exists>xs. r = PyList xs"
proof (induction n arbitrary: st)
  case 0
  then show ?case by simp
next
  case (Suc n)
  from rounds_Suc [of w qn sch ms n st] show ?case
  proof
    assume "steps_so_far (fst (rounds w qn sch ms (Suc n) st)) = steps_so_far st"
    with Suc.prems show ?thesis by simp
  next
    assume "\<exists>st2 s1 d ev stq q0.
        rounds w qn sch ms (Suc n) st = rounds w qn sch ms n st2
        \<and> steps_so_far st2 = steps_so_far st @ [s1]
        \<and> results (execution s1) = normalize_results (d_results d)
        \<and> snd (safe_query (clock w) ev stq q0 ms) = Inr d"
    then obtain st2 s1 d ev stq q0 where h:
      "rounds w qn sch ms (Suc n) st = rounds w qn sch ms n st2"
      "steps_so_far st2 = steps_so_far st @ [s1]"
      "results (execution s1) = normalize_results (d_results d)"
      "snd (safe_query (clock w) ev stq q0 ms) = Inr d"
      by blast
    from h(4) have "\<forall>r\<in>set (d_results d). \<exists>xs. r = PyTuple xs"
      by (rule safe_query_rows_are_tuples)
    then have "\<forall>r\<in>set (results (execution s1)). \<exists>xs. r = PyList xs"
      unfolding h(3) by (rule normalized_rows_are_lists)
    with Suc.prems h(2) have
      "\<forall>s\<in>set (steps_so_far st2). \<forall>r\<in>set (results (execution s)). \<exists>xs. r = PyList xs"
      by auto
    from Suc.IH [OF this] h(1) show ?thesis by simp
  qed
qed

lemma run_rows_are_lists:
  assumes "snd (snd (run w qn dbf ms mx)) = Inr ar"
  shows "\<forall>s\<in>set (steps ar). \<forall>r\<in>set (results (execution s)). \<exists>xs. r = PyList xs"
proof -
  from assms obtain c sch where conn: "connect_to_db w dbf = Inr (c, sch)"
    by (auto simp: run_def split: sum.splits)
  let ?st0 = "\<lparr>the_conn = c, clock_reads = 0, steps_so_far = [], events = []\<rparr> :: 'a run_state"
  from assms conn have body: "snd (run_body w qn sch ms mx ?st0) = Inr ar"
    by (auto simp: run_def Let_def split: sum.splits option.splits)
  have inv: "\<forall>s\<in>set (steps_so_far (fst (rounds w qn sch ms (nat mx) ?st0))).
      \<forall>r\<in>set (results (execution s)). \<exists>xs. r = PyList xs"
    by (rule rounds_rows_are_lists) simp
  obtain st1 r where r: "rounds w qn sch ms (nat mx) ?st0 = (st1, r)"
    by (cases "rounds w qn sch ms (nat mx) ?st0")
  with body have "steps ar = steps_so_far st1"
    by (auto simp: run_body_def Let_def split: sum.splits option.splits)
  with inv r show ?thesis by simp
qed

lemma list_rows_never_equal_tuple_rows:
  assumes "gold \<noteq> []"
    and "\<forall>r\<in>set predr. \<exists>xs. r = PyList xs"
    and "\<forall>r\<in>set gold. \<exists>xs. r = PyTuple xs"
  shows "\<not> list_all2 (py_eq e) predr gold"
proof
  assume a: "list_all2 (py_eq e) predr gold"
  from assms(1) obtain g gs where g: "gold = g # gs" by (cases gold) auto
  with a obtain p ps where p: "predr = p # ps" "py_eq e p g" by (cases predr) auto
  from assms(2) p(1) obtain xs where "p = PyList xs" by auto
  moreover from assms(3) g obtain ys where "g = PyTuple ys" by auto
  ultimately show False using p(2) by simp
qed

lemma strip_query: "py_lower (py_strip ''query'') = ''query''"
  by code_simp

lemma strip_final: "py_lower (py_strip ''final'') = ''final''"
  by code_simp

lemma strip_select_1: "py_strip ''SELECT 1'' = ''SELECT 1''"
  by code_simp

lemma strip_done: "py_strip ''done'' = ''done''"
  by code_simp

lemma strip_5: "py_strip ''5'' = ''5''"
  by code_simp

lemma connect_query_world: "connect_to_db query_world (Some ''db'') = Inr (fresh_conn, [])"
  by (simp add: connect_to_db_def get_db_connection_def get_database_schema_def query_world_def
      opens_def no_tables_def fresh_conn_def)

lemma connect_final_world: "connect_to_db final_world (Some ''db'') = Inr (fresh_conn, [])"
  by (simp add: connect_to_db_def get_db_connection_def get_database_schema_def final_world_def
      opens_def no_tables_def fresh_conn_def)

lemma connect_broken_world: "connect_to_db broken_world (Some ''db'') = Inr (fresh_conn, [])"
  by (simp add: connect_to_db_def get_db_connection_def get_database_schema_def broken_world_def
      opens_def no_tables_def fresh_conn_def)

lemma query_world_fields:
  "clock query_world = clock_2s" "backend query_world = always_one_row"
  "chat query_world = always_query" "close_error query_world = None"
  by (simp_all add: query_world_def)

lemma final_world_fields:
  "clock final_world = clock_2s" "backend final_world = always_one_row"
  "chat final_world = always_final" "close_error final_world = None"
  by (simp_all add: final_world_def)

lemma broken_world_fields:
  "clock broken_world = clock_2s" "backend broken_world = always_one_row"
  "chat broken_world = failing_chat" "close_error broken_world = Some (SqliteError ''close failed'')"
  by (simp_all add: broken_world_def)

lemma run_final_world:
  "run final_world ''How many?'' (Some ''db'') 1000 4
     = (Some \<lparr>handler = None, closed = True, path = ''db''\<rparr>, [Plan, CloseConn],
        Inr \<lparr>steps = [], final_answer = ''5''\<rparr>)"
  by (simp add: run_def run_body_def connect_final_world Let_def eval_nat_numeral decode_def
      final_world_fields always_final_def get_def final_payload_def strip_final strip_5 close_def
      fresh_conn_def)

lemma run_broken_world:
  "run broken_world ''How many?'' (Some ''db'') 1000 4
     = (Some fresh_conn, [Plan, CloseConn], Inl (OtherError ''URLError''))"
  by (simp add: run_def run_body_def connect_broken_world Let_def eval_nat_numeral decode_def
      broken_world_fields failing_chat_def close_def)

lemma safe_query_one_row:
  "safe_query clock_2s one_row (fresh_conn, k) ''SELECT 1'' 1000
     = ((fresh_conn, k + 2),
        Inr \<lparr>d_success = True, d_status = ''success'', d_elapsed_ms = 2000,
             d_results = [PyTuple [Scalar 1]], d_error = None\<rparr>)"
proof -
  have "elapsed_ms_at (clock_2s k) (clock_2s (k + 1)) = 2000"
    by (rule elapsed_2s) (simp add: clock_2s_def)
  with select_1_ok show ?thesis
    by (simp add: safe_query_def Let_def one_row_def fresh_conn_def deadline_at_def)
qed

lemma run_query_world:
  "run query_world ''How many?'' (Some ''db'') 1000 1
     = (Some \<lparr>handler = None, closed = True, path = ''db''\<rparr>,
        [Plan, Exec ''SELECT 1'', Summarize, CloseConn],
        Inr \<lparr>steps = [\<lparr>reasoning = [], sql = ''SELECT 1'',
                execution = \<lparr>executed = True, success = True, status = ''success'',
                  elapsed_ms = Some 2000, results = [PyList [Scalar 1]], error = None\<rparr>\<rparr>],
              final_answer = ''done''\<rparr>)"
  by (simp add: run_def run_body_def connect_query_world Let_def decode_def
      query_world_fields always_query_def get_def query_payload_def strip_query strip_select_1
      strip_done close_def always_one_row_def safe_query_one_row normalize_results_def)
     (simp add: fresh_conn_def)

text \<open>The oracle call fails and the close fails too: \<open>run\<close> raises the error
  of the oracle call, after the close has been attempted.\<close>

lemma close_after_connect_broken_world:
  "connect_to_db broken_world (Some ''db'') = Inr (fresh_conn, [])
   \<and> close_error broken_world = Some (SqliteError ''close failed'')
   \<and> snd (snd (run broken_world ''How many?'' (Some ''db'') 1000 4)) = Inl (OtherError ''URLError'')
   \<and> fst (snd (run broken_world ''How many?'' (Some ''db'') 1000 4)) = [Plan, CloseConn]"
proof -
  have body: "snd (run_body broken_world ''How many?'' [] 1000 4
      \<lparr>the_conn = fresh_conn, clock_reads = 0, steps_so_far = [], events = []\<rparr>)
      = Inl (OtherError ''URLError'')"
    by (simp add: run_body_def Let_def eval_nat_numeral decode_def broken_world_fields
        failing_chat_def)
  from close_after_connect [OF connect_broken_world, of "''How many?''" 1000 4] body
  have "snd (snd (run broken_world ''How many?'' (Some ''db'') 1000 4)) = Inl (OtherError ''URLError'')"
    by blast
  then show ?thesis
    by (simp add: connect_broken_world broken_world_fields run_broken_world)
qed

text \<open>The file \<open>db\<close> opens and is not a database: \<open>run\<close> raises the error of
  the schema query and leaves the connection open.\<close>

theorem schema_failure_leaves_connection_open_witness:
  "get_db_connection garbage_world (Some ''db'') = Inr fresh_conn
   \<and> get_database_schema garbage_world fresh_conn = Inl (SqliteError ''file is not a database'')
   \<and> \<not> closed fresh_conn
   \<and> run garbage_world ''How many?'' (Some ''db'') 1000 4
       = (None, [], Inl (SqliteError ''file is not a database''))
   \<and> CloseConn \<notin> set (fst (snd (run garbage_world ''How many?'' (Some ''db'') 1000 4)))"
proof -
  have o: "get_db_connection garbage_world (Some ''db'') = Inr fresh_conn"
    by (simp add: get_db_connection_def garbage_world_def opens_def fresh_conn_def)
  have g: "get_database_schema garbage_world fresh_conn = Inl (SqliteError ''file is not a database'')"
    by (simp add: get_database_schema_def garbage_world_def not_a_database_def)
  from schema_failure_leaves_connection_open [OF o g, of "''How many?''" 1000 4] o g
  show ?thesis by blast
qed








lemma process_turn_comparable:
  "process_turn sr e ms mx oi aw gw t acc = Inr acc' \<Longrightarrow>
   comparable_count acc' = comparable_count acc + (if has_reference t then 1 else 0)"
  by (auto simp: process_turn_def Let_def split: sum.splits if_splits)

lemma process_turns_comparable:
  "process_turns sr e ms mx oi aws gws idx ts acc = Inr acc' \<Longrightarrow>
   comparable_count acc' = comparable_count acc + length (filter has_reference ts)"
proof (induction ts arbitrary: idx acc)
  case Nil
  then show ?case by simp
next
  case (Cons t ts)
  from Cons.prems obtain acc1 where
    a: "process_turn sr e ms mx oi (aws idx) (gws idx) t acc = Inr acc1"
       "process_turns sr e ms mx oi aws gws (Suc idx) ts acc1 = Inr acc'"
    by (auto split: sum.splits)
  from process_turn_comparable [OF a(1)] Cons.IH [OF a(2)] show ?case by simp
qed

text \<open>
  Claim C5, as the code has it. A turn without a reference gets the verdict
  \<open>None\<close> and leaves both counters as they were. A turn with a reference adds
  one to \<open>comparable_count\<close>; its verdict is the result of \<open>compare_results\<close>
  when the transcript has a step and both executions report success, \<open>False\<close>
  when it has a step and one of them does not, and \<open>None\<close> when the
  transcript has no step. \<open>match_count\<close> grows by one exactly for the verdict
  \<open>True\<close>, the accuracy is \<open>match_count / comparable_count\<close>, and over the
  whole loop \<open>comparable_count\<close> grows by the number of turns with a reference.
\<close>

theorem verdict_of_turn:
  "(process_turn sr e ms mx oi aw gw t acc = Inr acc' \<longrightarrow>
     (\<exists>ar. snd (snd (run aw (question_text t) (db_file t) ms mx)) = Inr ar
        \<and> items acc' = items acc @ [last (items acc')]
        \<and> (\<not> has_reference t \<longrightarrow>
              results_match (last (items acc')) = None \<and> comparable_count acc' = comparable_count acc
              \<and> match_count acc' = match_count acc)
        \<and> (has_reference t \<longrightarrow>
              comparable_count acc' = comparable_count acc + 1
              \<and> (\<exists>g. reference_execution gw (db_file t) (the (gold_sql t)) ms = Inr g
                   \<and> (steps ar = [] \<longrightarrow> results_match (last (items acc')) = None)
                   \<and> (steps ar \<noteq> [] \<and> success (execution (last (steps ar))) \<and> d_success g \<longrightarrow>
                         results_match (last (items acc')) = Some (compare_results sr e
                            (results (execution (last (steps ar)))) (d_results g) oi))
                   \<and> (steps ar \<noteq> [] \<and> \<not> (success (execution (last (steps ar))) \<and> d_success g) \<longrightarrow>
                         results_match (last (items acc')) = Some False)))
        \<and> match_count acc' = match_count acc + (if results_match (last (items acc')) = Some True then 1 else 0)
        \<and> accuracy acc' = (if comparable_count acc' = 0 then None
             else Some (real (match_count acc') / real (comparable_count acc')))))
   \<and> (process_turns sr e ms mx oi aws gws idx ts acc = Inr acc2 \<longrightarrow>
         comparable_count acc2 = comparable_count acc + length (filter has_reference ts))"
proof (intro conjI impI)
  assume a: "process_turn sr e ms mx oi aw gw t acc = Inr acc'"
  then obtain ar where ar: "snd (snd (run aw (question_text t) (db_file t) ms mx)) = Inr ar"
    by (auto simp: process_turn_def split: sum.splits)
  show "\<exists>ar. snd (snd (run aw (question_text t) (db_file t) ms mx)) = Inr ar
        \<and> items acc' = items acc @ [last (items acc')]
        \<and> (\<not> has_reference t \<longrightarrow>
              results_match (last (items acc')) = None \<and> comparable_count acc' = comparable_count acc
              \<and> match_count acc' = match_count acc)
        \<and> (has_reference t \<longrightarrow>
              comparable_count acc' = comparable_count acc + 1
              \<and> (\<exists>g. reference_execution gw (db_file t) (the (gold_sql t)) ms = Inr g
                   \<and> (steps ar = [] \<longrightarrow> results_match (last (items acc')) = None)
                   \<and> (steps ar \<noteq> [] \<and> success (execution (last (steps ar))) \<and> d_success g \<longrightarrow>
                         results_match (last (items acc')) = Some (compare_results sr e
                            (results (execution (last (steps ar)))) (d_results g) oi))
                   \<and> (steps ar \<noteq> [] \<and> \<not> (success (execution (last (steps ar))) \<and> d_success g) \<longrightarrow>
                         results_match (last (items acc')) = Some False)))
        \<and> match_count acc' = match_count acc + (if results_match (last (items acc')) = Some True then 1 else 0)
        \<and> accuracy acc' = (if comparable_count acc' = 0 then None
             else Some (real (match_count acc') / real (comparable_count acc')))"
  proof (cases "has_reference t")
    case False
    with a ar show ?thesis
      by (auto simp: process_turn_def Let_def accuracy_def)
  next
    case True
    with a ar obtain g where g: "reference_execution gw (db_file t) (the (gold_sql t)) ms = Inr g"
      by (auto simp: process_turn_def Let_def split: sum.splits)
    show ?thesis
    proof (cases "steps ar = []")
      case True
      with a ar g \<open>has_reference t\<close> show ?thesis
        by (auto simp: process_turn_def Let_def accuracy_def)
    next
      case False
      with a ar g \<open>has_reference t\<close> show ?thesis
        by (auto simp: process_turn_def Let_def accuracy_def split: if_splits)
    qed
  qed
next
  assume "process_turns sr e ms mx oi aws gws idx ts acc = Inr acc2"
  then show "comparable_count acc2 = comparable_count acc + length (filter has_reference ts)"
    by (rule process_turns_comparable)
qed

lemma has_reference_ref_turn: "has_reference ref_turn"
  by (simp add: has_reference_def ref_turn_def truthy_def strip_select_1)

lemma no_reference_no_ref_turn: "\<not> has_reference no_ref_turn"
  by (simp add: has_reference_def no_ref_turn_def truthy_def)

lemma ref_turn_fields:
  "question_text ref_turn = ''How many?''" "db_file ref_turn = Some ''db''"
  "gold_sql ref_turn = Some ''SELECT 1''"
  by (simp_all add: ref_turn_def question_text_def truthy_def)

lemma reference_query_world:
  "reference_execution query_world (Some ''db'') ''SELECT 1'' 1000
     = Inr \<lparr>d_success = True, d_status = ''success'', d_elapsed_ms = 2000,
            d_results = [PyTuple [Scalar 1]], d_error = None\<rparr>"
  by (simp add: reference_execution_def get_db_connection_def query_world_def opens_def
      always_one_row_def close_def safe_query_one_row [unfolded fresh_conn_def])

lemma reference_final_world:
  "reference_execution final_world (Some ''db'') ''SELECT 1'' 1000
     = Inr \<lparr>d_success = True, d_status = ''success'', d_elapsed_ms = 2000,
            d_results = [PyTuple [Scalar 1]], d_error = None\<rparr>"
  by (simp add: reference_execution_def get_db_connection_def final_world_def opens_def
      always_one_row_def close_def safe_query_one_row [unfolded fresh_conn_def])

lemma process_ref_turn_one_step:
  "process_turn repr_int (=) 1000 1 oi query_world query_world ref_turn empty_tally
     = Inr \<lparr>match_count = (if oi then 1 else 0), comparable_count = 1,
            items = [\<lparr>pred_sql = ''SELECT 1'',
                      pred_execution = Some \<lparr>executed = True, success = True, status = ''success'',
                        elapsed_ms = Some 2000, results = [PyList [Scalar 1]], error = None\<rparr>,
                      gold_execution = Some \<lparr>d_success = True, d_status = ''success'',
                        d_elapsed_ms = 2000, d_results = [PyTuple [Scalar 1]], d_error = None\<rparr>,
                      results_match = Some oi\<rparr>]\<rparr>"
  by (simp add: process_turn_def ref_turn_fields run_query_world has_reference_ref_turn
      reference_query_world Let_def empty_tally_def compare_results_def canonicalize_rows_def)

lemma process_ref_turn_no_step:
  "process_turn repr_int (=) 1000 4 oi final_world final_world ref_turn empty_tally
     = Inr \<lparr>match_count = 0, comparable_count = 1,
            items = [\<lparr>pred_sql = [], pred_execution = None,
                      gold_execution = Some \<lparr>d_success = True, d_status = ''success'',
                        d_elapsed_ms = 2000, d_results = [PyTuple [Scalar 1]], d_error = None\<rparr>,
                      results_match = None\<rparr>]\<rparr>"
  by (simp add: process_turn_def ref_turn_fields run_final_world has_reference_ref_turn
      reference_final_world Let_def empty_tally_def)

text \<open>One turn with the reference \<open>SELECT 1\<close>, answered with the same query.\<close>

theorem verdict_of_turn_witness:
  "has_reference ref_turn
   \<and> process_turn repr_int (=) 1000 1 True query_world query_world ref_turn empty_tally
       = Inr \<lparr>match_count = 1, comparable_count = 1,
            items = [\<lparr>pred_sql = ''SELECT 1'',
                      pred_execution = Some \<lparr>executed = True, success = True, status = ''success'',
                        elapsed_ms = Some 2000, results = [PyList [Scalar 1]], error = None\<rparr>,
                      gold_execution = Some \<lparr>d_success = True, d_status = ''success'',
                        d_elapsed_ms = 2000, d_results = [PyTuple [Scalar 1]], d_error = None\<rparr>,
                      results_match = Some True\<rparr>]\<rparr>
   \<and> accuracy \<lparr>match_count = 1, comparable_count = 1,
            items = [\<lparr>pred_sql = ''SELECT 1'',
                      pred_execution = Some \<lparr>executed = True, success = True, status = ''success'',
                        elapsed_ms = Some 2000, results = [PyList [Scalar (1::int)]], error = None\<rparr>,
                      gold_execution = Some \<lparr>d_success = True, d_status = ''success'',
                        d_elapsed_ms = 2000, d_results = [PyTuple [Scalar 1]], d_error = None\<rparr>,
                      results_match = Some True\<rparr>]\<rparr> = Some 1"
proof -
  let ?acc = "\<lparr>match_count = 1, comparable_count = 1,
            items = [\<lparr>pred_sql = ''SELECT 1'',
                      pred_execution = Some \<lparr>executed = True, success = True, status = ''success'',
                        elapsed_ms = Some 2000, results = [PyList [Scalar (1::int)]], error = None\<rparr>,
                      gold_execution = Some \<lparr>d_success = True, d_status = ''success'',
                        d_elapsed_ms = 2000, d_results = [PyTuple [Scalar 1]], d_error = None\<rparr>,
                      results_match = Some True\<rparr>]\<rparr>"
  have p: "process_turn repr_int (=) 1000 1 True query_world query_world ref_turn empty_tally
       = Inr ?acc"
    using process_ref_turn_one_step [of True] by simp
  from verdict_of_turn [of repr_int "(=)" 1000 1 True query_world query_world ref_turn
      empty_tally ?acc] p
  have "accuracy ?acc = (if comparable_count ?acc = 0 then None
             else Some (real (match_count ?acc) / real (comparable_count ?acc)))"
    by blast
  then have "accuracy ?acc = Some 1" by simp
  with p has_reference_ref_turn show ?thesis by simp
qed

text \<open>
  Claim C5, as stated, fails for a transcript without steps: the oracle answers
  \<open>final\<close> at once, the turn has a reference, no predicted execution reports
  success, and the verdict is \<open>None\<close>, not \<open>False\<close>, while the turn counts in
  \<open>comparable_count\<close>.
\<close>

theorem no_prediction_is_not_false:
  "has_reference ref_turn
   \<and> snd (snd (run final_world ''How many?'' (Some ''db'') 1000 4))
       = Inr \<lparr>steps = [], final_answer = ''5''\<rparr>
   \<and> process_turn repr_int (=) 1000 4 True final_world final_world ref_turn empty_tally
       = Inr \<lparr>match_count = 0, comparable_count = 1,
            items = [\<lparr>pred_sql = [], pred_execution = None,
                      gold_execution = Some \<lparr>d_success = True, d_status = ''success'',
                        d_elapsed_ms = 2000, d_results = [PyTuple [Scalar 1]], d_error = None\<rparr>,
                      results_match = None\<rparr>]\<rparr>"
  by (simp add: has_reference_ref_turn run_final_world process_ref_turn_no_step)

text \<open>
  Claim C7, as the code has it. With \<open>order_insensitive = False\<close>, for a turn
  whose reference execution yields at least one row, the verdict is never
  \<open>True\<close> and \<open>match_count\<close> does not grow: every predicted row is a list,
  every reference row is a tuple, and a list is not equal to a tuple. The verdict is
  \<open>False\<close> when the transcript has a step and \<open>None\<close> when it has none.
\<close>

theorem order_sensitive_never_matches:
  assumes a: "process_turn sr e ms mx False aw gw t acc = Inr acc'"
      and ref: "has_reference t"
      and g: "reference_execution gw (db_file t) (the (gold_sql t)) ms = Inr g"
      and rows: "d_results g \<noteq> []"
  shows "results_match (last (items acc')) \<noteq> Some True
       \<and> match_count acc' = match_count acc
       \<and> (\<forall>ar. snd (snd (run aw (question_text t) (db_file t) ms mx)) = Inr ar \<longrightarrow>
            results_match (last (items acc')) = (if steps ar = [] then None else Some False)
            \<and> (\<forall>s\<in>set (steps ar). \<forall>r\<in>set (results (execution s)). \<exists>xs. r = PyList xs))
       \<and> (\<forall>r\<in>set (d_results g). \<exists>xs. r = PyTuple xs)"
proof -
  from a obtain ar where ar: "snd (snd (run aw (question_text t) (db_file t) ms mx)) = Inr ar"
    by (auto simp: process_turn_def split: sum.splits)
  have lists: "\<forall>s\<in>set (steps ar). \<forall>r\<in>set (results (execution s)). \<exists>xs. r = PyList xs"
    using ar by (rule run_rows_are_lists)
  have tuples: "\<forall>r\<in>set (d_results g). \<exists>xs. r = PyTuple xs"
    using g by (rule reference_rows_are_tuples)
  have verdict: "results_match (last (items acc')) = (if steps ar = [] then None else Some False)
      \<and> match_count acc' = match_count acc"
  proof (cases "steps ar = []")
    case True
    with a ar ref g show ?thesis by (auto simp: process_turn_def Let_def)
  next
    case False
    then have "last (steps ar) \<in> set (steps ar)" by simp
    with lists have "\<forall>r\<in>set (results (execution (last (steps ar)))). \<exists>xs. r = PyList xs"
      by blast
    from list_rows_never_equal_tuple_rows [OF rows this tuples]
    have "\<not> compare_results sr e (results (execution (last (steps ar)))) (d_results g) False"
      by (simp add: compare_results_def)
    with a ar ref g False show ?thesis by (auto simp: process_turn_def Let_def split: if_splits)
  qed
  from verdict ar lists tuples show ?thesis by auto
qed

text \<open>The prediction and the reference are both \<open>SELECT 1\<close> with the row
  \<open>(1,)\<close>: no match when the order counts, a match when it does not.\<close>

theorem order_sensitive_never_matches_witness:
  "results_match (last (items (projr
      (process_turn repr_int (=) 1000 1 False query_world query_world ref_turn empty_tally))))
     = Some False
   \<and> results_match (last (items (projr
      (process_turn repr_int (=) 1000 1 True query_world query_world ref_turn empty_tally))))
     = Some True"
proof -
  let ?acc = "projr (process_turn repr_int (=) 1000 1 False query_world query_world ref_turn empty_tally)"
  have p: "process_turn repr_int (=) 1000 1 False query_world query_world ref_turn empty_tally
      = Inr ?acc"
    by (simp add: process_ref_turn_one_step)
  have g: "reference_execution query_world (db_file ref_turn) (the (gold_sql ref_turn)) 1000
      = Inr \<lparr>d_success = True, d_status = ''success'', d_elapsed_ms = 2000,
            d_results = [PyTuple [Scalar 1]], d_error = None\<rparr>"
    by (simp add: ref_turn_fields reference_query_world)
  have rows: "d_results \<lparr>d_success = True, d_status = ''success'', d_elapsed_ms = 2000,
            d_results = [PyTuple [Scalar (1::int)]], d_error = None\<rparr> \<noteq> []"
    by simp
  from order_sensitive_never_matches [OF p has_reference_ref_turn g rows]
  have "\<forall>ar. snd (snd (run query_world (question_text ref_turn) (db_file ref_turn) 1000 1)) = Inr ar \<longrightarrow>
            results_match (last (items ?acc)) = (if steps ar = [] then None else Some False)"
    by blast
  then have "results_match (last (items ?acc)) = Some False"
    by (simp add: ref_turn_fields run_query_world)
  then show ?thesis by (simp add: process_ref_turn_one_step)
qed

text \<open>
  Claim C7, as stated, fails for a transcript without steps: the reference yields
  one row, and the verdict under order-sensitive comparison is \<open>None\<close>, not
  \<open>False\<close>.
\<close>

theorem order_sensitive_no_prediction:
  "has_reference ref_turn
   \<and> reference_execution final_world (Some ''db'') ''SELECT 1'' 1000
       = Inr \<lparr>d_success = True, d_status = ''success'', d_elapsed_ms = 2000,
            d_results = [PyTuple [Scalar 1]], d_error = None\<rparr>
   \<and> process_turn repr_int (=) 1000 4 False final_world final_world ref_turn empty_tally
       = Inr \<lparr>match_count = 0, comparable_count = 1,
            items = [\<lparr>pred_sql = [], pred_execution = None,
                      gold_execution = Some \<lparr>d_success = True, d_status = ''success'',
                        d_elapsed_ms = 2000, d_results = [PyTuple [Scalar 1]], d_error = None\<rparr>,
                      results_match = None\<rparr>]\<rparr>"
  by (simp add: has_reference_ref_turn reference_final_world process_ref_turn_no_step)

section \<open>The guard's patterns as languages\<close>

lemma after_Nil: "after p [] = p"
  by (simp add: after_def)

lemma after_Cons: "after p (c # cs) = after (Some c) cs"
  by (simp add: after_def)

lemma after_append: "after (after p xs) ys = after p (xs @ ys)"
  by (simp add: after_def)

lemma one_char_False: "one_char (\<lambda>_. False) st = []"
  by (cases st; cases "snd st") auto

lemma ends_lit:
  "ends (lit w) (p, s) = (if prefix w s then [(after p w, drop (length w) s)] else [])"
proof (induction w arbitrary: p s)
  case Nil
  then show ?case by (simp add: after_Nil)
next
  case (Cons c w)
  show ?case
  proof (cases s)
    case Nil
    then show ?thesis by simp
  next
    case (Cons x xs)
    with Cons.IH show ?thesis by (auto simp: after_Cons)
  qed
qed

lemma ends_alts: "ends (alts rs) st = concat (map (\<lambda>r. ends r st) rs)"
  by (induction rs rule: alts.induct) (simp_all add: one_char_False)

lemma consumes_iff:
  "consumes r L \<Longrightarrow>
   (q, t) \<in> set (ends r (p, s)) \<longleftrightarrow> (\<exists>pre. s = pre @ t \<and> q = after p pre \<and> pre \<in> L)"
  unfolding consumes_def by blast

lemma consumesD:
  "consumes r L \<Longrightarrow> (q, t) \<in> set (ends r (p, s)) \<Longrightarrow> \<exists>pre. s = pre @ t \<and> q = after p pre \<and> pre \<in> L"
  by (simp only: consumes_iff)

lemma consumesI:
  "consumes r L \<Longrightarrow> pre \<in> L \<Longrightarrow> (after p pre, t) \<in> set (ends r (p, pre @ t))"
  by (subst consumes_iff, assumption) blast

lemma star_cls_mem_Cons:
  "(q, t) \<in> set (ends (Star (Cls P)) (p, x # xs)) \<longleftrightarrow>
     (P x \<and> (q, t) \<in> set (ends (Star (Cls P)) (Some x, xs))) \<or> (q = p \<and> t = x # xs)"
  by (cases "P x") auto

lemma star_cls_mem_Nil: "(q, t) \<in> set (ends (Star (Cls P)) (p, [])) \<longleftrightarrow> q = p \<and> t = []"
  by simp

lemma star_cls_members:
  "(q, t) \<in> set (ends (Star (Cls P)) (p, s)) \<longleftrightarrow>
     (\<exists>pre. s = pre @ t \<and> q = after p pre \<and> list_all P pre)"
proof (induction s arbitrary: p)
  case Nil
  have "(\<exists>pre. [] = pre @ t \<and> q = after p pre \<and> list_all P pre) \<longleftrightarrow> q = p \<and> t = []"
    by (auto simp: after_Nil)
  then show ?case by (simp only: star_cls_mem_Nil)
next
  case (Cons x xs)
  show ?case
  proof
    assume "(q, t) \<in> set (ends (Star (Cls P)) (p, x # xs))"
    then have "(P x \<and> (q, t) \<in> set (ends (Star (Cls P)) (Some x, xs))) \<or> (q = p \<and> t = x # xs)"
      by (simp only: star_cls_mem_Cons)
    then show "\<exists>pre. x # xs = pre @ t \<and> q = after p pre \<and> list_all P pre"
    proof
      assume a: "P x \<and> (q, t) \<in> set (ends (Star (Cls P)) (Some x, xs))"
      with Cons.IH [of "Some x"] obtain pre where
        pre: "xs = pre @ t" "q = after (Some x) pre" "list_all P pre" by blast
      have "x # xs = (x # pre) @ t" using pre(1) by simp
      moreover have "q = after p (x # pre)" using pre(2) by (simp only: after_Cons)
      moreover have "list_all P (x # pre)" using a pre(3) by simp
      ultimately show ?thesis by blast
    next
      assume b: "q = p \<and> t = x # xs"
      have "x # xs = [] @ t" using b by simp
      moreover have "q = after p []" using b by (simp only: after_Nil)
      moreover have "list_all P []" by simp
      ultimately show ?thesis by blast
    qed
  next
    assume "\<exists>pre. x # xs = pre @ t \<and> q = after p pre \<and> list_all P pre"
    then obtain pre where pre: "x # xs = pre @ t" "q = after p pre" "list_all P pre" by blast
    show "(q, t) \<in> set (ends (Star (Cls P)) (p, x # xs))"
    proof (cases pre)
      case Nil
      with pre have "q = p \<and> t = x # xs" by (simp add: after_Nil)
      then show ?thesis unfolding star_cls_mem_Cons by blast
    next
      case (Cons y ys)
      with pre have y: "y = x" "xs = ys @ t" "q = after (Some x) ys" "P x" "list_all P ys"
        by (simp_all add: after_Cons)
      from y(2,3,5) have "\<exists>pre. xs = pre @ t \<and> q = after (Some x) pre \<and> list_all P pre" by blast
      with Cons.IH [of "Some x"] have "(q, t) \<in> set (ends (Star (Cls P)) (Some x, xs))"
        by blast
      with y(4) show ?thesis unfolding star_cls_mem_Cons by blast
    qed
  qed
qed

lemma consumes_star_cls: "consumes (Star (Cls P)) {pre. list_all P pre}"
  unfolding consumes_def by (simp only: star_cls_members mem_Collect_eq) blast
lemma cls_members:
  "(q, t) \<in> set (ends (Cls P) (p, s)) \<longleftrightarrow> (\<exists>c. s = c # t \<and> q = Some c \<and> P c)"
  by (cases s) auto

lemma consumes_Cls: "consumes (Cls P) {[c] | c. P c}"
proof -
  have "(\<exists>pre. s = pre @ t \<and> q = after p pre \<and> pre \<in> {[c] | c. P c})
     \<longleftrightarrow> (\<exists>c. s = c # t \<and> q = Some c \<and> P c)" for q t p s
  proof
    assume "\<exists>pre. s = pre @ t \<and> q = after p pre \<and> pre \<in> {[c] | c. P c}"
    then obtain c where "s = [c] @ t" "q = after p [c]" "P c" by blast
    then have "s = c # t \<and> q = Some c \<and> P c" by (simp add: after_def)
    then show "\<exists>c. s = c # t \<and> q = Some c \<and> P c" by blast
  next
    assume "\<exists>c. s = c # t \<and> q = Some c \<and> P c"
    then obtain c where c: "s = c # t" "q = Some c" "P c" by blast
    then have "s = [c] @ t \<and> q = after p [c] \<and> [c] \<in> {[c] | c. P c}"
      by (simp add: after_def)
    then show "\<exists>pre. s = pre @ t \<and> q = after p pre \<and> pre \<in> {[c] | c. P c}" by blast
  qed
  then show ?thesis unfolding consumes_def by (simp only: cls_members) blast
qed
lemma consumes_lit: "consumes (lit w) {w}"
  unfolding consumes_def by (auto simp: ends_lit prefix_def)
lemma consumes_Eps: "consumes Eps {[]}"
  unfolding consumes_def by (auto simp: after_Nil)

lemma consumes_Alt: "consumes a A \<Longrightarrow> consumes b B \<Longrightarrow> consumes (Alt a b) (A \<union> B)"
  unfolding consumes_def by auto
lemma consumes_Cat:
  assumes "consumes a A" "consumes b B"
  shows "consumes (Cat a b) {x @ y | x y. x \<in> A \<and> y \<in> B}"
proof -
  have "(q, t) \<in> set (ends (Cat a b) (p, s)) \<longleftrightarrow>
        (\<exists>pre. s = pre @ t \<and> q = after p pre \<and> pre \<in> {x @ y | x y. x \<in> A \<and> y \<in> B})"
    for p s q t
  proof
    assume "(q, t) \<in> set (ends (Cat a b) (p, s))"
    then obtain m where m: "m \<in> set (ends a (p, s))" "(q, t) \<in> set (ends b m)" by auto
    obtain mp ms where mm: "m = (mp, ms)" by (cases m)
    from consumesD [OF assms(1) m(1) [unfolded mm]] obtain x where
      x: "s = x @ ms" "mp = after p x" "x \<in> A" by blast
    from consumesD [OF assms(2) m(2) [unfolded mm]] obtain y where
      y: "ms = y @ t" "q = after mp y" "y \<in> B" by blast
    from x y have "s = (x @ y) @ t \<and> q = after p (x @ y)"
      by (simp add: after_append)
    with x(3) y(3) show "\<exists>pre. s = pre @ t \<and> q = after p pre
        \<and> pre \<in> {x @ y | x y. x \<in> A \<and> y \<in> B}" by blast
  next
    assume "\<exists>pre. s = pre @ t \<and> q = after p pre
        \<and> pre \<in> {x @ y | x y. x \<in> A \<and> y \<in> B}"
    then obtain x y where xy: "s = (x @ y) @ t" "q = after p (x @ y)" "x \<in> A" "y \<in> B"
      by blast
    from consumesI [OF assms(1) xy(3), of p "y @ t"] xy(1)
    have 1: "(after p x, y @ t) \<in> set (ends a (p, s))" by simp
    from consumesI [OF assms(2) xy(4), of "after p x" t] xy(2)
    have 2: "(q, t) \<in> set (ends b (after p x, y @ t))" by (simp add: after_append)
    from 1 2 show "(q, t) \<in> set (ends (Cat a b) (p, s))" by auto
  qed
  then show ?thesis unfolding consumes_def by blast
qed

lemma consumes_cong: "consumes r L \<Longrightarrow> L = L' \<Longrightarrow> consumes r L'"
  by simp

lemma nonempty_Cat:
  assumes "consumes a A"
  shows "ends (Cat a b) (p, s) \<noteq> [] \<longleftrightarrow>
         (\<exists>pre rest. s = pre @ rest \<and> pre \<in> A \<and> ends b (after p pre, rest) \<noteq> [])"
proof
  assume "ends (Cat a b) (p, s) \<noteq> []"
  then obtain m where m: "m \<in> set (ends a (p, s))" "ends b m \<noteq> []" by auto
  obtain q t where mm: "m = (q, t)" by (cases m)
  from consumesD [OF assms m(1) [unfolded mm]] obtain pre where
    "s = pre @ t" "q = after p pre" "pre \<in> A" by blast
  with m(2) mm show "\<exists>pre rest. s = pre @ rest \<and> pre \<in> A \<and> ends b (after p pre, rest) \<noteq> []"
    by blast
next
  assume "\<exists>pre rest. s = pre @ rest \<and> pre \<in> A \<and> ends b (after p pre, rest) \<noteq> []"
  then obtain pre rest where h: "s = pre @ rest" "pre \<in> A" "ends b (after p pre, rest) \<noteq> []"
    by blast
  from consumesI [OF assms h(2), of p rest] h(1)
  have "(after p pre, rest) \<in> set (ends a (p, s))" by simp
  with h(3) show "ends (Cat a b) (p, s) \<noteq> []" by auto
qed

lemma ends_WordB_nonempty: "ends WordB st \<noteq> [] \<longleftrightarrow> word_before st \<noteq> word_after st"
  by simp

lemma word_before_after:
  "w \<noteq> [] \<Longrightarrow> word_before (after p w, rest) = py_isword (last w)"
  by (simp add: word_before_def after_def)

lemma word_after_token_end: "word_after (q, rest) = (\<not> token_end rest)"
  by (simp add: word_after_def token_end_def split: list.splits)

lemma consumes_space: "consumes space {[c] | c. py_isspace c}"
  unfolding space_def by (rule consumes_Cls)

lemma consumes_star_space: "consumes (Star space) {s. list_all py_isspace s}"
  unfolding space_def by (rule consumes_star_cls)

lemma consumes_plus_space: "consumes (plus space) {s. spaces1 s}"
proof -
  have "{x @ y | x y. x \<in> {[c] | c. py_isspace c} \<and> y \<in> {s. list_all py_isspace s}}
      = {s. spaces1 s}" (is "?L = ?R")
  proof
    show "?L \<subseteq> ?R" by (auto simp: spaces1_def)
    show "?R \<subseteq> ?L"
    proof
      fix s assume "s \<in> ?R"
      then obtain c cs where "s = [c] @ cs" "py_isspace c" "list_all py_isspace cs"
        by (cases s) (auto simp: spaces1_def)
      then show "s \<in> ?L" by blast
    qed
  qed
  with consumes_Cat [OF consumes_space consumes_star_space] show ?thesis
    unfolding plus_def by simp
qed
lemma consumes_query_plan:
  "consumes (Cat (lit ''query'') (Cat (plus space) (Cat (lit ''plan'') (plus space))))
     {''query'' @ s2 @ ''plan'' @ s3 | s2 s3. spaces1 s2 \<and> spaces1 s3}"
proof -
  have "{x @ y | x y. x \<in> {''query''} \<and> y \<in> {x @ y | x y. x \<in> {s. spaces1 s}
            \<and> y \<in> {x @ y | x y. x \<in> {''plan''} \<and> y \<in> {s. spaces1 s}}}}
      = {''query'' @ s2 @ ''plan'' @ s3 | s2 s3. spaces1 s2 \<and> spaces1 s3}"
    by blast
  with consumes_Cat [OF consumes_lit consumes_Cat [OF consumes_plus_space
        consumes_Cat [OF consumes_lit consumes_plus_space]], of "''query''" "''plan''"]
  show ?thesis by simp
qed

lemma consumes_explain_lead:
  "consumes (opt (Cat (lit ''explain'') (Cat (plus space)
       (opt (Cat (lit ''query'') (Cat (plus space) (Cat (lit ''plan'') (plus space))))))))
     {lead. explain_lead lead}"
proof -
  let ?QP = "{''query'' @ s2 @ ''plan'' @ s3 | s2 s3. spaces1 s2 \<and> spaces1 s3}"
  have 1: "consumes (opt (Cat (lit ''query'') (Cat (plus space) (Cat (lit ''plan'') (plus space)))))
      (?QP \<union> {[]})"
    unfolding opt_def by (rule consumes_Alt [OF consumes_query_plan consumes_Eps])
  have 2: "consumes (Cat (lit ''explain'') (Cat (plus space)
       (opt (Cat (lit ''query'') (Cat (plus space) (Cat (lit ''plan'') (plus space)))))))
      {x @ y | x y. x \<in> {''explain''} \<and> y \<in> {x @ y | x y. x \<in> {s. spaces1 s} \<and> y \<in> ?QP \<union> {[]}}}"
    by (rule consumes_Cat [OF consumes_lit consumes_Cat [OF consumes_plus_space 1]])
  have 3: "{x @ y | x y. x \<in> {''explain''} \<and> y \<in> {x @ y | x y. x \<in> {s. spaces1 s} \<and> y \<in> ?QP \<union> {[]}}}
        \<union> {[]} = {lead. explain_lead lead}" (is "?L = ?R")
  proof
    show "?L \<subseteq> ?R"
    proof
      fix l assume "l \<in> ?L"
      then consider "l = []" | s1 where "spaces1 s1" "l = ''explain'' @ s1 @ []"
        | s1 s2 s3 where "spaces1 s1" "spaces1 s2" "spaces1 s3"
            "l = ''explain'' @ s1 @ ''query'' @ s2 @ ''plan'' @ s3"
        by blast
      then show "l \<in> ?R"
      proof cases
        case 1
        then show ?thesis by (simp add: explain_lead_def)
      next
        case 2
        then have "\<exists>s1. spaces1 s1 \<and> l = ''explain'' @ s1" by auto
        then show ?thesis by (simp add: explain_lead_def)
      next
        case 3
        then have "\<exists>s1 s2 s3. spaces1 s1 \<and> spaces1 s2 \<and> spaces1 s3
            \<and> l = ''explain'' @ s1 @ ''query'' @ s2 @ ''plan'' @ s3" by blast
        then show ?thesis by (simp add: explain_lead_def)
      qed
    qed
    show "?R \<subseteq> ?L"
    proof
      fix l assume "l \<in> ?R"
      then have "explain_lead l" by simp
      then consider "l = []" | s1 where "spaces1 s1" "l = ''explain'' @ s1"
        | s1 s2 s3 where "spaces1 s1" "spaces1 s2" "spaces1 s3"
            "l = ''explain'' @ s1 @ ''query'' @ s2 @ ''plan'' @ s3"
        unfolding explain_lead_def by blast
      then show "l \<in> ?L"
      proof cases
        case 1
        then show ?thesis by simp
      next
        case 2
        then have "l = ''explain'' @ (s1 @ [])" by simp
        with 2(1) show ?thesis by blast
      next
        case 3
        then have "l = ''explain'' @ (s1 @ (''query'' @ s2 @ ''plan'' @ s3))" by simp
        with 3(1,2,3) show ?thesis by blast
      qed
    qed
  qed
  from consumes_Alt [OF 2 consumes_Eps] 3 show ?thesis
    unfolding opt_def by simp
qed

lemma consumes_keyword:
  "consumes (Alt (lit ''select'') (lit ''with'')) {''select'', ''with''}"
proof -
  have "{''select''} \<union> {''with''} = {''select'', ''with''}" by blast
  with consumes_Alt [OF consumes_lit consumes_lit, of "''select''" "''with''"]
  show ?thesis by simp
qed

lemma ends_Cat_Bol: "ends (Cat Bol r) (None, t) = ends r (None, t)"
  by simp

lemma keyword_last_is_word: "py_isword (last ''select'')" "py_isword (last ''with'')"
  by (simp_all add: py_isword_def)

lemma match_read_prefix: "re_match read_prefix_rx t \<longleftrightarrow> read_prefix t"
proof -
  define K where "K = Cat (Alt (lit ''select'') (lit ''with'')) WordB"
  define L where "L = Cat (opt (Cat (lit ''explain'') (Cat (plus space)
       (opt (Cat (lit ''query'') (Cat (plus space) (Cat (lit ''plan'') (plus space)))))))) K"
  have rx: "read_prefix_rx = Cat Bol (Cat (Star space) L)"
    by (simp add: read_prefix_rx_def L_def K_def)
  have k: "ends K (p, s) \<noteq> [] \<longleftrightarrow>
      (\<exists>kw rest. s = kw @ rest \<and> (kw = ''select'' \<or> kw = ''with'') \<and> token_end rest)" for p s
  proof -
    have "ends K (p, s) \<noteq> [] \<longleftrightarrow>
        (\<exists>kw rest. s = kw @ rest \<and> kw \<in> {''select'', ''with''}
           \<and> word_before (after p kw, rest) \<noteq> word_after (after p kw, rest))"
      unfolding K_def by (simp only: nonempty_Cat [OF consumes_keyword] ends_WordB_nonempty)
    also have "\<dots> \<longleftrightarrow>
        (\<exists>kw rest. s = kw @ rest \<and> (kw = ''select'' \<or> kw = ''with'') \<and> token_end rest)"
    proof -
      have "word_before (after p kw, rest) \<noteq> word_after (after p kw, rest) \<longleftrightarrow> token_end rest"
        if "kw \<in> {''select'', ''with''}" for kw rest
      proof -
        from that have ne: "kw \<noteq> []" "py_isword (last kw)"
          using keyword_last_is_word by auto
        have "word_before (after p kw, rest) = py_isword (last kw)"
          using ne(1) by (rule word_before_after)
        then show ?thesis using ne(2) by (simp add: word_after_token_end)
      qed
      then show ?thesis by blast
    qed
    finally show ?thesis .
  qed
  have l: "ends L (p, s) \<noteq> [] \<longleftrightarrow>
      (\<exists>lead kw rest. s = lead @ kw @ rest \<and> explain_lead lead
         \<and> (kw = ''select'' \<or> kw = ''with'') \<and> token_end rest)" for p s
  proof -
    have "ends L (p, s) \<noteq> [] \<longleftrightarrow>
        (\<exists>lead r1. s = lead @ r1 \<and> lead \<in> {lead. explain_lead lead}
           \<and> ends K (after p lead, r1) \<noteq> [])"
      unfolding L_def by (simp only: nonempty_Cat [OF consumes_explain_lead])
    also have "\<dots> \<longleftrightarrow>
      (\<exists>lead kw rest. s = lead @ kw @ rest \<and> explain_lead lead
         \<and> (kw = ''select'' \<or> kw = ''with'') \<and> token_end rest)"
      unfolding k by blast
    finally show ?thesis .
  qed
  have "re_match read_prefix_rx t \<longleftrightarrow> ends (Cat (Star space) L) (None, t) \<noteq> []"
    by (simp only: re_match_def rx ends_Cat_Bol)
  also have "\<dots> \<longleftrightarrow>
      (\<exists>ws r1. t = ws @ r1 \<and> ws \<in> {s. list_all py_isspace s} \<and> ends L (after None ws, r1) \<noteq> [])"
    by (simp only: nonempty_Cat [OF consumes_star_space])
  also have "\<dots> \<longleftrightarrow>
      (\<exists>ws lead kw rest. t = ws @ lead @ kw @ rest \<and> list_all py_isspace ws \<and> explain_lead lead
        \<and> (kw = ''select'' \<or> kw = ''with'') \<and> token_end rest)"
    unfolding l by blast
  finally show ?thesis by (simp only: read_prefix_def)
qed

lemma search_split:
  "search_from r (p, s) \<longleftrightarrow> (\<exists>pre post. s = pre @ post \<and> ends r (after p pre, post) \<noteq> [])"
proof (induction s arbitrary: p)
  case Nil
  show ?case by (simp add: after_Nil)
next
  case (Cons x xs)
  show ?case
  proof
    assume "search_from r (p, x # xs)"
    then have "ends r (p, x # xs) \<noteq> [] \<or> search_from r (Some x, xs)" by simp
    then show "\<exists>pre post. x # xs = pre @ post \<and> ends r (after p pre, post) \<noteq> []"
    proof
      assume "ends r (p, x # xs) \<noteq> []"
      then have "x # xs = [] @ (x # xs) \<and> ends r (after p [], x # xs) \<noteq> []"
        by (simp add: after_Nil)
      then show ?thesis by blast
    next
      assume "search_from r (Some x, xs)"
      with Cons.IH [of "Some x"] obtain pre post where
        "xs = pre @ post" "ends r (after (Some x) pre, post) \<noteq> []" by blast
      then have "x # xs = (x # pre) @ post \<and> ends r (after p (x # pre), post) \<noteq> []"
        by (simp add: after_Cons)
      then show ?thesis by blast
    qed
  next
    assume "\<exists>pre post. x # xs = pre @ post \<and> ends r (after p pre, post) \<noteq> []"
    then obtain pre post where h: "x # xs = pre @ post" "ends r (after p pre, post) \<noteq> []"
      by blast
    show "search_from r (p, x # xs)"
    proof (cases pre)
      case Nil
      with h have "ends r (p, x # xs) \<noteq> []" by (simp add: after_Nil)
      then show ?thesis by simp
    next
      case (Cons y ys)
      with h have "xs = ys @ post" "ends r (after (Some x) ys, post) \<noteq> []"
        by (simp_all add: after_Cons)
      then have "search_from r (Some x, xs)" using Cons.IH [of "Some x"] by blast
      then show ?thesis by simp
    qed
  qed
qed

lemma consumes_terms: "consumes (alts (map lit ws)) (set ws)"
proof -
  have "(q, t) \<in> set (ends (alts (map lit ws)) (p, s)) \<longleftrightarrow>
        (\<exists>pre. s = pre @ t \<and> q = after p pre \<and> pre \<in> set ws)" for q t p s
  proof -
    have "(q, t) \<in> set (ends (alts (map lit ws)) (p, s)) \<longleftrightarrow>
        (\<exists>w\<in>set ws. (q, t) \<in> set (ends (lit w) (p, s)))"
      by (simp only: ends_alts) auto
    also have "\<dots> \<longleftrightarrow> (\<exists>w\<in>set ws. \<exists>pre. s = pre @ t \<and> q = after p pre \<and> pre \<in> {w})"
      by (simp only: consumes_iff [OF consumes_lit])
    also have "\<dots> \<longleftrightarrow> (\<exists>pre. s = pre @ t \<and> q = after p pre \<and> pre \<in> set ws)"
      by blast
    finally show ?thesis .
  qed
  then show ?thesis unfolding consumes_def by blast
qed

lemma terms_are_words:
  "\<forall>w\<in>set prohibited_terms. w \<noteq> [] \<and> py_isword (hd w) \<and> py_isword (last w)"
  by (simp add: prohibited_terms_def py_isword_def)

lemma ends_Cat_WordB:
  "ends (Cat WordB r) st = (if word_before st \<noteq> word_after st then ends r st else [])"
  by simp

lemma word_before_None: "word_before (after None pre, x) = (pre \<noteq> [] \<and> py_isword (last pre))"
  by (simp add: word_before_def after_def)

lemma word_after_append: "w \<noteq> [] \<Longrightarrow> word_after (q, w @ rest) = py_isword (hd w)"
  by (cases w) (simp_all add: word_after_def)

lemma search_prohibited:
  "re_search prohibited_rx t \<longleftrightarrow> (\<exists>w\<in>set prohibited_terms. whole_word w t)"
proof -
  define A where "A = Cat (alts (map lit prohibited_terms)) WordB"
  have rx: "prohibited_rx = Cat WordB A" by (simp add: prohibited_rx_def A_def)
  have a: "ends A (q, post) \<noteq> [] \<longleftrightarrow>
      (\<exists>w rest. post = w @ rest \<and> w \<in> set prohibited_terms
         \<and> word_before (after q w, rest) \<noteq> word_after (after q w, rest))" for q post
    unfolding A_def by (simp only: nonempty_Cat [OF consumes_terms] ends_WordB_nonempty)
  have b: "ends prohibited_rx (after None pre, post) \<noteq> [] \<longleftrightarrow>
      (\<exists>w rest. post = w @ rest \<and> w \<in> set prohibited_terms
         \<and> (pre = [] \<or> \<not> py_isword (last pre)) \<and> token_end rest)" for pre post
  proof -
    have "ends prohibited_rx (after None pre, post) \<noteq> [] \<longleftrightarrow>
        word_before (after None pre, post) \<noteq> word_after (after None pre, post)
        \<and> ends A (after None pre, post) \<noteq> []"
      by (simp only: rx ends_Cat_WordB) simp
    also have "\<dots> \<longleftrightarrow>
        (\<exists>w rest. post = w @ rest \<and> w \<in> set prohibited_terms
           \<and> word_before (after None pre, w @ rest) \<noteq> word_after (after None pre, w @ rest)
           \<and> word_before (after (after None pre) w, rest)
               \<noteq> word_after (after (after None pre) w, rest))"
      unfolding a by blast
    also have "\<dots> \<longleftrightarrow>
        (\<exists>w rest. post = w @ rest \<and> w \<in> set prohibited_terms
           \<and> (pre = [] \<or> \<not> py_isword (last pre)) \<and> token_end rest)"
    proof -
      have "(word_before (after None pre, w @ rest) \<noteq> word_after (after None pre, w @ rest)
           \<and> word_before (after (after None pre) w, rest)
               \<noteq> word_after (after (after None pre) w, rest))
         \<longleftrightarrow> ((pre = [] \<or> \<not> py_isword (last pre)) \<and> token_end rest)"
        if "w \<in> set prohibited_terms" for w rest
      proof -
        from that terms_are_words have w: "w \<noteq> []" "py_isword (hd w)" "py_isword (last w)"
          by blast+
        have 1: "word_after (after None pre, w @ rest) = True"
          using word_after_append [OF w(1)] w(2) by simp
        have 2: "word_before (after (after None pre) w, rest) = True"
          using word_before_after [OF w(1)] w(3) by simp
        show ?thesis
          unfolding 1 2 by (simp add: word_before_None word_after_token_end)
      qed
      then show ?thesis by blast
    qed
    finally show ?thesis .
  qed
  have "re_search prohibited_rx t \<longleftrightarrow>
      (\<exists>pre post. t = pre @ post \<and> ends prohibited_rx (after None pre, post) \<noteq> [])"
    by (simp only: re_search_def search_split)
  also have "\<dots> \<longleftrightarrow>
      (\<exists>pre post w rest. t = pre @ post \<and> post = w @ rest \<and> w \<in> set prohibited_terms
         \<and> (pre = [] \<or> \<not> py_isword (last pre)) \<and> token_end rest)"
    unfolding b by blast
  also have "\<dots> \<longleftrightarrow> (\<exists>w\<in>set prohibited_terms. whole_word w t)"
    unfolding whole_word_def by blast
  finally show ?thesis .
qed

lemma cleaned_batch: "cleaned ''SELECT 1; DROP TABLE t'' = ''select 1; drop table t''"
  by code_simp

lemma spec_cleaned_semicolon: "spec_cleaned '';SELECT 1'' = '';select 1''"
  by code_simp

lemma semicolon_no_prefix: "\<not> re_match read_prefix_rx '';select 1''"
  by code_simp

lemma semicolon_allowed: "is_read_only '';SELECT 1''"
  by code_simp

text \<open>
  The block-comment pattern runs before the literal pattern, so a \<open>/*\<close> inside a
  string literal opens a comment for the guard. The statement
  \<open>WITH x AS (SELECT '/*') DELETE FROM t WHERE 1 OR '*/'=''\<close>, whose \<open>DELETE\<close>
  stands outside every comment and literal of the SQL text, is cleaned to a text
  without it and allowed.
\<close>

lemma comment_opener_in_literal_allowed:
  "strip_comments_and_literals
     (''WITH x AS (SELECT '' @ [CHR 0x27] @ ''/*'' @ [CHR 0x27] @ '') DELETE FROM t WHERE 1 OR ''
        @ [CHR 0x27] @ ''*/'' @ [CHR 0x27] @ ''='' @ [CHR 0x27, CHR 0x27])
     = ''WITH x AS (SELECT '' @ [CHR 0x27, CHR 0x27] @ ''='' @ [CHR 0x27, CHR 0x27]
   \<and> is_read_only
     (''WITH x AS (SELECT '' @ [CHR 0x27] @ ''/*'' @ [CHR 0x27] @ '') DELETE FROM t WHERE 1 OR ''
        @ [CHR 0x27] @ ''*/'' @ [CHR 0x27] @ ''='' @ [CHR 0x27, CHR 0x27])"
  by code_simp

text \<open>
  Claim C1, as the code has it. \<open>_is_read_only\<close> returns true exactly when the
  cleaned text (comments and literals stripped, whitespace trimmed, lowercased,
  semicolons trimmed at both ends) is whitespace, an optional \<open>explain\<close> or
  \<open>explain query plan\<close>, then \<open>select\<close> or \<open>with\<close> as a whole token, and
  has no whole-word occurrence of a prohibited term. So a statement whose cleaned
  text has such an occurrence is rejected, whatever it starts with.
\<close>

theorem guard_characterisation:
  "(is_read_only s \<longleftrightarrow>
      read_prefix (cleaned s) \<and> \<not> (\<exists>w\<in>set prohibited_terms. whole_word w (cleaned s)))
   \<and> (w \<in> set prohibited_terms \<and> whole_word w (cleaned s) \<longrightarrow> \<not> is_read_only s)"
  by (auto simp: is_read_only_def match_read_prefix search_prohibited)

text \<open>\<open>SELECT 1; DROP TABLE t\<close>: the cleaned text has \<open>drop\<close> as a whole word,
  and the statement is rejected although it starts with \<open>SELECT\<close>.\<close>

theorem guard_characterisation_witness:
  "''drop'' \<in> set prohibited_terms
   \<and> whole_word ''drop'' (cleaned ''SELECT 1; DROP TABLE t'')
   \<and> \<not> is_read_only ''SELECT 1; DROP TABLE t''"
proof -
  have t: "''drop'' \<in> set prohibited_terms" by (simp add: prohibited_terms_def)
  have "''select 1; drop table t'' = ''select 1; '' @ ''drop'' @ '' table t''
      \<and> (''select 1; '' = [] \<or> \<not> py_isword (last ''select 1; '')) \<and> token_end '' table t''"
    by (simp add: token_end_def py_isword_def)
  then have "whole_word ''drop'' ''select 1; drop table t''"
    unfolding whole_word_def by blast
  then have w: "whole_word ''drop'' (cleaned ''SELECT 1; DROP TABLE t'')"
    by (simp only: cleaned_batch)
  from guard_characterisation [of "''SELECT 1; DROP TABLE t''" "''drop''"] t w
  have "\<not> is_read_only ''SELECT 1; DROP TABLE t''" by blast
  with t w show ?thesis by blast
qed

text \<open>
  Claim C1, as stated, fails: with only the trailing semicolons trimmed, the text
  of \<open>;SELECT 1\<close> starts with a semicolon and not with \<open>select\<close>, yet
  \<open>_is_read_only\<close> allows the statement, since \<open>strip(';')\<close> trims the
  leading semicolon as well.
\<close>

theorem leading_semicolon_allowed:
  "is_read_only '';SELECT 1'' \<and> \<not> spec_read_only '';SELECT 1''"
proof -
  have "\<not> read_prefix '';select 1''"
    using semicolon_no_prefix by (simp add: match_read_prefix)
  then have "\<not> spec_read_only '';SELECT 1''"
    by (simp add: spec_read_only_def spec_cleaned_semicolon)
  with semicolon_allowed show ?thesis by blast
qed

end
